theory Spec2Isabelle
  imports Main "HOL-Library.Sublist" "HOL-Library.Char_ord" "HOL-Library.List_Lexorder"
    "HOL-Library.Multiset"
begin

section \<open>JavaScript primitives used by the sources\<close>

text \<open>
  A command-line string parameter holds \<open>undefined\<close> or a string: \<open>string option\<close>.
  \<open>truthy\<close> is JavaScript's \<open>!!value\<close> (undefined and the empty string are false),
  \<open>js_str\<close> is what a template literal or \<open>+\<close> prints for the value.
\<close>

definition truthy :: "string option \<Rightarrow> bool" where
  "truthy v = (case v of None \<Rightarrow> False | Some s \<Rightarrow> s \<noteq> [])"

definition js_str :: "string option \<Rightarrow> string" where
  "js_str v = (case v of None \<Rightarrow> ''undefined'' | Some s \<Rightarrow> s)"

definition dquote :: char where
  "dquote = CHR 0x22"

definition newline :: char where
  "newline = CHR 0x0A"

text \<open>\<open>s.split(c)\<close> for a one-character separator: the empty string gives one empty piece.\<close>

fun split_on :: "char \<Rightarrow> string \<Rightarrow> string list" where
  "split_on c [] = [[]]"
| "split_on c (x # xs) =
     (if x = c then [] # split_on c xs
      else (case split_on c xs of [] \<Rightarrow> [[x]] | w # ws \<Rightarrow> (x # w) # ws))"

text \<open>\<open>args.join(sep)\<close>.\<close>

fun join_with :: "string \<Rightarrow> string list \<Rightarrow> string" where
  "join_with sep [] = []"
| "join_with sep [a] = a"
| "join_with sep (a # b # r) = a @ sep @ join_with sep (b # r)"

text \<open>\<open>s.indexOf(sub)\<close>: the first position where \<open>sub\<close> starts, or \<open>-1\<close>.\<close>

fun indexOf_from :: "nat \<Rightarrow> string \<Rightarrow> string \<Rightarrow> int" where
  "indexOf_from i sub [] = (if sub = [] then int i else - 1)"
| "indexOf_from i sub (c # cs) =
     (if take (length sub) (c # cs) = sub then int i else indexOf_from (Suc i) sub cs)"

definition indexOf :: "string \<Rightarrow> string \<Rightarrow> int" where
  "indexOf sub s = indexOf_from 0 sub s"

text \<open>The decimal rendering of a number in a template literal.\<close>

definition digit_char :: "nat \<Rightarrow> char" where
  "digit_char d = ''0123456789'' ! d"

fun show_nat :: "nat \<Rightarrow> string" where
  "show_nat n = (if n < 10 then [digit_char n] else show_nat (n div 10) @ [digit_char (n mod 10)])"

declare show_nat.simps [simp del]

text \<open>
  Assigning \<open>obj[key] = value\<close> on an object held as a list of properties: an existing
  property keeps its place, a new one is added last.
\<close>

fun obj_set :: "string \<Rightarrow> string \<Rightarrow> (string \<times> string) list \<Rightarrow> (string \<times> string) list" where
  "obj_set k v [] = [(k, v)]"
| "obj_set k v ((k', v') # r) = (if k' = k then (k, v) # r else (k', v') # obj_set k v r)"

section \<open>rush publish: \<open>PublishAction.ts\<close>\<close>

subsection \<open>Data\<close>

text \<open>
  Modelled from the spec: \<open>ChangeType\<close> and \<open>IChangeInfo\<close> are declared in
  \<open>@microsoft/rush-lib\<close>, which is not among the sources. The spec gives the enum as
  totally ordered, \<open>none < dependency < patch < minor < major\<close>, and a change as
  \<open>{ packageName, newVersion, finalChangeType }\<close>. \<open>changeTypeValue\<close> is the numeric
  value that TypeScript compares with \<open>>\<close>.
\<close>

datatype ChangeType = none | dependency | patch | minor | major

fun changeTypeValue :: "ChangeType \<Rightarrow> nat" where
  "changeTypeValue none = 0"
| "changeTypeValue dependency = 1"
| "changeTypeValue patch = 2"
| "changeTypeValue minor = 3"
| "changeTypeValue major = 4"

record IChangeInfo =
  packageName :: string
  changeType :: ChangeType
  newVersion :: string

record RushConfigProject =
  projectFolder :: string

record RushConfig =
  commonFolder :: string
  npmToolFilename :: string
  projectsByName :: "string \<Rightarrow> RushConfigProject option"

text \<open>The command-line parameters of the action (\<open>this._apply.value\<close> and so on).\<close>

record parameters =
  apply_value :: bool
  publish_value :: bool
  targetBranch_value :: "string option"
  registryUrl_value :: "string option"
  npmAuthToken_value :: "string option"

text \<open>
  What the action reads from its host: the platform's line end, the working directory,
  the clock, the process environment, the \<open>path\<close> and \<open>colors\<close> functions, the
  listing that \<open>fsx.readdirSync\<close> returns (\<open>None\<close> when it throws), and whether
  \<open>Utilities.executeCommand\<close> returns (\<open>True\<close>) or throws for a command.
\<close>

record host =
  EOL :: string
  cwd :: string
  now :: nat
  process_env :: "(string \<times> string) list"
  path_join :: "string \<Rightarrow> string \<Rightarrow> string"
  path_relative :: "string \<Rightarrow> string \<Rightarrow> string"
  green :: "string \<Rightarrow> string"
  readdirSync :: "string \<Rightarrow> string list option"
  executeCommand :: "string \<Rightarrow> string list \<Rightarrow> string \<Rightarrow> (string \<times> string) list option \<Rightarrow> bool"

text \<open>
  The observable steps of a run, in order: a line on the console, an external command
  (command, arguments, working directory, environment), a deleted file, and a manifest
  edit either written or only reported.
\<close>

datatype event =
    Log string
  | ExecuteCommand string "string list" string "(string \<times> string) list option"
  | DeleteFile string
  | WriteManifest string string
  | ReportManifest string string

datatype error =
    CommandFailed string "string list"
  | TypeError string

type_synonym outcome = "event list \<times> error option"

text \<open>Statements in sequence: an exception ends the run, the later statements do not run.\<close>

fun then_do :: "outcome \<Rightarrow> outcome \<Rightarrow> outcome" where
  "then_do (es, Some e) next = (es, Some e)"
| "then_do (es, None) next = (es @ fst next, snd next)"

fun seq :: "outcome list \<Rightarrow> outcome" where
  "seq [] = ([], None)"
| "seq (a # rest) = then_do a (seq rest)"

subsection \<open>The private methods\<close>

definition getEnvArgs :: "host \<Rightarrow> (string \<times> string) list" where
  "getEnvArgs h = process_env h"

text \<open>
  \<open>_execCommand\<close>. The object \<open>envArgs\<close> that the method fills from the process
  environment and from \<open>env\<close> is not passed on: \<open>Utilities.executeCommand\<close> receives
  \<open>env\<close>. The default working directory is \<open>process.cwd()\<close>, which the callers below
  pass.
\<close>

definition execCommand ::
  "host \<Rightarrow> bool \<Rightarrow> string \<Rightarrow> string list \<Rightarrow> string \<Rightarrow> (string \<times> string) list option \<Rightarrow> outcome" where
  "execCommand h shouldExecute command args workingDirectory env =
     (let relativeDirectory = path_relative h (cwd h) workingDirectory;
          relativeDirectory =
            (if relativeDirectory \<noteq> [] then ''('' @ relativeDirectory @ '')'' else relativeDirectory);
          line = EOL h @ ''* '' @ (if shouldExecute then ''EXECUTING'' else ''DRYRUN'') @ '': ''
                 @ command @ '' '' @ join_with '' '' args @ '' '' @ relativeDirectory
      in if shouldExecute then
           ([Log line, ExecuteCommand command args workingDirectory env],
            if executeCommand h command args workingDirectory env then None
            else Some (CommandFailed command args))
         else ([Log line], None))"

definition gitCheckout :: "host \<Rightarrow> parameters \<Rightarrow> string option \<Rightarrow> bool \<Rightarrow> outcome" where
  "gitCheckout h p branchName createBranch =
     (let params = ''checkout '' @ (if createBranch then ''-b '' else '''') @ js_str branchName
      in execCommand h (truthy (targetBranch_value p)) ''git'' (split_on CHR '' '' params) (cwd h) None)"

definition gitMerge :: "host \<Rightarrow> parameters \<Rightarrow> string \<Rightarrow> outcome" where
  "gitMerge h p branchName =
     execCommand h (truthy (targetBranch_value p)) ''git''
       (split_on CHR '' '' (''merge '' @ branchName @ '' --no-edit'')) (cwd h) None"

definition gitDeleteBranch :: "host \<Rightarrow> parameters \<Rightarrow> string \<Rightarrow> outcome" where
  "gitDeleteBranch h p branchName =
     then_do
       (execCommand h (truthy (targetBranch_value p)) ''git''
          (split_on CHR '' '' (''branch -d '' @ branchName)) (cwd h) None)
       (execCommand h (truthy (targetBranch_value p)) ''git''
          (split_on CHR '' '' (''push origin --delete '' @ branchName)) (cwd h) None)"

definition gitPull :: "host \<Rightarrow> parameters \<Rightarrow> outcome" where
  "gitPull h p =
     execCommand h (truthy (targetBranch_value p)) ''git''
       (split_on CHR '' '' (''pull origin '' @ js_str (targetBranch_value p))) (cwd h) None"

definition deleteChangeFiles :: "host \<Rightarrow> parameters \<Rightarrow> outcome" where
  "deleteChangeFiles h p =
     (let changesPath = path_join h (cwd h) ''changes'';
          shouldDelete = truthy (targetBranch_value p);
          changeFiles =
            (case readdirSync h changesPath of
               None \<Rightarrow> []
             | Some names \<Rightarrow> filter (\<lambda>filename. indexOf ''.json'' filename \<ge> 0) names)
      in if changeFiles \<noteq> [] then
           (Log (EOL h @ ''* '' @ (if shouldDelete then ''DELETING:'' else ''DRYRUN: Deleting'')
                 @ '' '' @ show_nat (length changeFiles) @ '' change file(s).'')
            # concat (map (\<lambda>fileName.
                 (let filePath = path_join h changesPath fileName
                  in Log ('' - '' @ filePath) # (if shouldDelete then [DeleteFile filePath] else [])))
               changeFiles),
            None)
         else ([], None))"

definition gitAddChanges :: "host \<Rightarrow> parameters \<Rightarrow> outcome" where
  "gitAddChanges h p =
     execCommand h (truthy (targetBranch_value p)) ''git'' [''add'', ''.''] (cwd h) None"

fun gitAddTags :: "host \<Rightarrow> parameters \<Rightarrow> IChangeInfo list \<Rightarrow> outcome" where
  "gitAddTags h p [] = ([], None)"
| "gitAddTags h p (change # rest) =
     then_do
       (if changeTypeValue (changeType change) > changeTypeValue dependency then
          (let tagName = packageName change @ ''_v'' @ newVersion change
           in execCommand h
                (truthy (targetBranch_value p) \<and> publish_value p \<and> \<not> truthy (registryUrl_value p))
                ''git''
                [''tag'', ''-a'', tagName, ''-m'',
                 [dquote] @ packageName change @ '' v'' @ newVersion change @ [dquote]]
                (cwd h) None)
        else ([], None))
       (gitAddTags h p rest)"

definition gitCommit :: "host \<Rightarrow> parameters \<Rightarrow> outcome" where
  "gitCommit h p =
     execCommand h (truthy (targetBranch_value p)) ''git''
       [''commit'', ''-m'', [dquote] @ ''Applying package updates.'' @ [dquote]] (cwd h) None"

definition gitPush :: "host \<Rightarrow> parameters \<Rightarrow> string option \<Rightarrow> outcome" where
  "gitPush h p branchName =
     execCommand h (truthy (targetBranch_value p)) ''git''
       [''push'', ''origin'', ''HEAD:'' @ js_str branchName, ''--follow-tags'', ''--verbose'']
       (cwd h) None"

definition npmPublish :: "host \<Rightarrow> parameters \<Rightarrow> RushConfig \<Rightarrow> IChangeInfo \<Rightarrow> string \<Rightarrow> outcome" where
  "npmPublish h p rushConfig change packagePath =
     (let env = getEnvArgs h;
          args = [''publish''];
          env = (if truthy (registryUrl_value p)
                 then obj_set ''npm_config_registry'' (js_str (registryUrl_value p)) env else env);
          args = (if truthy (npmAuthToken_value p)
                  then args @ [''--//registry.npmjs.org/:_authToken='' @ js_str (npmAuthToken_value p)]
                  else args)
      in execCommand h (publish_value p) (npmToolFilename rushConfig) args packagePath (Some env))"

subsection \<open>The publish module\<close>

text \<open>
  Modelled from the spec: \<open>updatePackages\<close> is defined in \<open>./publish\<close>, which is not
  among the sources. The spec's Package Mutator: "When not dry-run: for each affected
  package, write newVersion into its manifest [...]. When dry-run: compute and return the
  same set of intended edits without touching disk", the edits being "only reported".
  The intended edits (manifest file, new text) are computed from the changes and the
  packages by code that is not in the sources; the model takes them as given.
\<close>

definition updatePackages :: "(string \<times> string) list \<Rightarrow> bool \<Rightarrow> outcome" where
  "updatePackages edits shouldCommit =
     (map (\<lambda>(file, text). if shouldCommit then WriteManifest file text else ReportManifest file text)
        edits, None)"

subsection \<open>\<open>onExecute\<close>\<close>

text \<open>
  The loop that publishes: \<open>allPackages.get(name).projectFolder\<close> throws a TypeError when
  the package is not in the map.
\<close>

fun publishChanges :: "host \<Rightarrow> parameters \<Rightarrow> RushConfig \<Rightarrow> IChangeInfo list \<Rightarrow> outcome" where
  "publishChanges h p rushConfig [] = ([], None)"
| "publishChanges h p rushConfig (change # rest) =
     then_do
       (if changeTypeValue (changeType change) > changeTypeValue dependency then
          (case projectsByName rushConfig (packageName change) of
             None \<Rightarrow> ([], Some (TypeError (packageName change)))
           | Some project \<Rightarrow> npmPublish h p rushConfig change (projectFolder project))
        else ([], None))
       (publishChanges h p rushConfig rest)"

text \<open>
  \<open>findChangeRequests\<close> and \<open>sortChangeRequests\<close> are imported from \<open>./publish\<close> too:
  \<open>onExecute\<close> takes them as arguments, together with the edits that \<open>updatePackages\<close>
  intends for a set of changes. \<open>'c\<close> is the type \<open>IChangeInfoHash\<close>.
\<close>

definition onExecute ::
  "host \<Rightarrow> parameters \<Rightarrow> RushConfig
   \<Rightarrow> ((string \<Rightarrow> RushConfigProject option) \<Rightarrow> string \<Rightarrow> 'c)
   \<Rightarrow> ('c \<Rightarrow> IChangeInfo list)
   \<Rightarrow> ('c \<Rightarrow> (string \<times> string) list)
   \<Rightarrow> outcome" where
  "onExecute h p rushConfig findChangeRequests sortChangeRequests intendedEdits =
     (let changesPath = path_join h (commonFolder rushConfig) ''changes'';
          allPackages = projectsByName rushConfig;
          allChanges = findChangeRequests allPackages changesPath;
          orderedChanges = sortChangeRequests allChanges
      in seq
        [([Log (''Starting '' @ [dquote] @ ''rush publish'' @ [dquote] @ '' '' @ EOL h)], None),
         (if orderedChanges \<noteq> [] then
            (let tempBranch = ''publish-'' @ show_nat (now h)
             in seq
               [gitCheckout h p (Some tempBranch) True,
                updatePackages (intendedEdits allChanges) (apply_value p),
                deleteChangeFiles h p,
                gitAddChanges h p,
                gitCommit h p,
                gitPush h p (Some tempBranch),
                publishChanges h p rushConfig orderedChanges,
                gitAddTags h p orderedChanges,
                gitPush h p (Some tempBranch),
                gitCheckout h p (targetBranch_value p) False,
                gitPull h p,
                gitMerge h p tempBranch,
                gitPush h p (targetBranch_value p),
                gitDeleteBranch h p tempBranch])
          else ([], None)),
         ([Log (EOL h @ green h ''Rush publish finished successfully.'')], None)])"

section \<open>api-extractor: \<open>ExtractorConfig.loadFile\<close>\<close>

text \<open>
  A configuration object is held flat: each leaf of the JSON object under its dotted
  path (\<open>compiler.tsconfigFilePath\<close>), in the order of the object's properties.
\<close>

type_synonym config = "(string \<times> string) list"

text \<open>
  What \<open>loadFile\<close> reads from its host: \<open>process.cwd()\<close>, the \<open>path\<close> functions,
  \<open>JsonFile.load\<close> and \<open>resolve.sync\<close> (\<open>Inl\<close> the message of the exception thrown), the
  default configuration and the schema validation (\<open>Some\<close> the message when it throws).
\<close>

record extractor_host =
  processCwd :: string
  pathResolve :: "string \<Rightarrow> string \<Rightarrow> string"
  pathDirname :: "string \<Rightarrow> string"
  pathIsAbsolute :: "string \<Rightarrow> bool"
  pathJoin :: "string \<Rightarrow> string \<Rightarrow> string"
  jsonFileLoad :: "string \<Rightarrow> string + config"
  resolveSync :: "string \<Rightarrow> string \<Rightarrow> string + string"
  defaultConfig :: config
  validateObject :: "config \<Rightarrow> string \<Rightarrow> string option"

text \<open>\<open>lodash.merge(target, source)\<close> on flat objects: every leaf of the source is assigned.\<close>

definition merge :: "config \<Rightarrow> config \<Rightarrow> config" where
  "merge target source = fold (\<lambda>(k, v) object. obj_set k v object) source target"

definition resolveConfigFileRelativePath :: "extractor_host \<Rightarrow> string \<Rightarrow> string \<Rightarrow> string \<Rightarrow> string" where
  "resolveConfigFileRelativePath h fieldName fieldValue currentConfigFolderPath =
     (if \<not> pathIsAbsolute h fieldValue \<and> indexOf ''<projectFolder>'' fieldValue \<noteq> 0
      then pathJoin h currentConfigFolderPath fieldValue
      else fieldValue)"

text \<open>The settings that \<open>_resolveConfigFileRelativePaths\<close> rewrites, with their field names.\<close>

definition pathSettings :: "(string \<times> string) list" where
  "pathSettings =
     [(''projectFolder'', ''projectFolder''),
      (''mainEntryPointFilePath'', ''mainEntryPointFilePath''),
      (''compiler.tsconfigFilePath'', ''tsconfigFilePath''),
      (''apiReport.reportFolder'', ''reportFolder''),
      (''apiReport.reportTempFolder'', ''reportTempFolder''),
      (''docModel.apiJsonFilePath'', ''apiJsonFilePath''),
      (''dtsRollup.untrimmedFilePath'', ''untrimmedFilePath''),
      (''dtsRollup.betaTrimmedFilePath'', ''betaTrimmedFilePath''),
      (''dtsRollup.publicTrimmedFilePath'', ''publicTrimmedFilePath''),
      (''tsdocMetadata.tsdocMetadataFilePath'', ''tsdocMetadataFilePath'')]"

definition resolveConfigFileRelativePaths :: "extractor_host \<Rightarrow> config \<Rightarrow> string \<Rightarrow> config" where
  "resolveConfigFileRelativePaths h configFile currentConfigFolderPath =
     map (\<lambda>(key, fieldValue).
            (case map_of pathSettings key of
               Some fieldName \<Rightarrow>
                 (if fieldValue \<noteq> []
                  then (key, resolveConfigFileRelativePath h fieldName fieldValue currentConfigFolderPath)
                  else (key, fieldValue))
             | None \<Rightarrow> (key, fieldValue)))
       configFile"

text \<open>The regular expression \<open>/^\.\.?[\\/]/\<close>.\<close>

definition isSlash :: "char \<Rightarrow> bool" where
  "isSlash c \<longleftrightarrow> c = CHR ''/'' \<or> c = CHR 0x5C"

fun matchesDotPath :: "string \<Rightarrow> bool" where
  "matchesDotPath (a # b # rest) =
     (a = CHR ''.'' \<and> (isSlash b \<or> (b = CHR ''.'' \<and> (case rest of [] \<Rightarrow> False | c # r \<Rightarrow> isSlash c))))"
| "matchesDotPath s = False"

definition cycleMessage :: "string \<Rightarrow> string" where
  "cycleMessage currentConfigFilePath =
     ''The API Extractor '' @ [dquote] @ ''extends'' @ [dquote] @ '' setting contains a cycle.''
     @ ''  This file is included twice: '' @ [dquote] @ currentConfigFilePath @ [dquote]"

definition errorLoading :: "string \<Rightarrow> string \<Rightarrow> string" where
  "errorLoading currentConfigFilePath message =
     ''Error loading '' @ currentConfigFilePath @ '':'' @ [newline] @ message"

text \<open>
  One pass through the body of the \<open>do ... while\<close> loop, after the check of
  \<open>visitedPaths\<close>: \<open>Inl\<close> the message of what is thrown, or the resolved \<open>extends\<close> field
  (empty when there is none) and the merged configuration object.
\<close>

definition loadStep :: "extractor_host \<Rightarrow> string \<Rightarrow> config \<Rightarrow> string + (string \<times> config)" where
  "loadStep h currentConfigFilePath configObject =
     (let currentConfigFolderPath = pathDirname h currentConfigFilePath
      in case jsonFileLoad h currentConfigFilePath of
           Inl message \<Rightarrow> Inl message
         | Inr baseConfig \<Rightarrow>
            (let extendsField = (case map_of baseConfig ''extends'' of None \<Rightarrow> [] | Some e \<Rightarrow> e);
                 baseConfig = filter (\<lambda>(key, v). key \<noteq> ''extends'') baseConfig;
                 resolved =
                   (if extendsField \<noteq> [] then
                      (if matchesDotPath extendsField
                       then Inr (pathResolve h currentConfigFolderPath extendsField)
                       else (case resolveSync h extendsField currentConfigFolderPath of
                               Inl message \<Rightarrow>
                                 Inl (''Error resolving NodeJS path '' @ [dquote] @ extendsField
                                      @ [dquote] @ '': '' @ message)
                             | Inr found \<Rightarrow> Inr found))
                    else Inr extendsField)
             in case resolved of
                  Inl message \<Rightarrow> Inl message
                | Inr extendsField \<Rightarrow>
                   (let baseConfig = resolveConfigFileRelativePaths h baseConfig currentConfigFolderPath
                    in Inr (extendsField, merge baseConfig configObject))))"

text \<open>
  The loop inside the \<open>try\<close>; whatever is thrown in it is rethrown by the \<open>catch\<close> as
  \<open>Error loading <file>\<close>. The loop may not return: \<open>None\<close> is a run that goes on for ever.
\<close>

partial_function (option) loadLoop ::
  "extractor_host \<Rightarrow> string set \<Rightarrow> string \<Rightarrow> config \<Rightarrow> (string + config) option" where
  "loadLoop h visitedPaths currentConfigFilePath configObject =
     (if currentConfigFilePath \<in> visitedPaths then
        Some (Inl (errorLoading currentConfigFilePath (cycleMessage currentConfigFilePath)))
      else
        (case loadStep h currentConfigFilePath configObject of
           Inl message \<Rightarrow> Some (Inl (errorLoading currentConfigFilePath message))
         | Inr (extendsField, configObject) \<Rightarrow>
             if extendsField \<noteq> []
             then loadLoop h (insert currentConfigFilePath visitedPaths) extendsField configObject
             else Some (Inr configObject)))"

definition loadFile :: "extractor_host \<Rightarrow> string \<Rightarrow> (string + config) option" where
  "loadFile h jsonFilePath =
     (case loadLoop h {} (pathResolve h (processCwd h) jsonFilePath) [] of
        None \<Rightarrow> None
      | Some (Inl message) \<Rightarrow> Some (Inl message)
      | Some (Inr configObject) \<Rightarrow>
          (let configObject = merge (defaultConfig h) configObject
           in case validateObject h configObject jsonFilePath of
                Some message \<Rightarrow> Some (Inl message)
              | None \<Rightarrow> Some (Inr configObject)))"

section \<open>The version-bump engine of the spec\<close>

text \<open>
  \<open>findChangeRequests\<close> and \<open>sortChangeRequests\<close> are imported by \<open>PublishAction.ts\<close> from
  \<open>./publish\<close>, a module that is not among the sources. The definitions of this section
  are modelled from the spec, which describes the two as the Bump Aggregator and the
  Publish Sequencer.
\<close>

subsection \<open>Data model\<close>

text \<open>
  Modelled from the spec: a semver version, "major.minor.patch", as three numbers.
\<close>

type_synonym semver = "nat \<times> nat \<times> nat"

text \<open>
  Modelled from the spec: "ChangeRequest: { packageName, changeType, comment }".
\<close>

record ChangeRequest =
  request_packageName :: string
  request_changeType :: ChangeType
  request_comment :: string

text \<open>
  Modelled from the spec: "PackageNode: { name, currentVersion (semver), folder,
  prodDependencies, devDependencies }". \<open>currentVersion\<close> is \<open>None\<close> for a text that is not
  valid semver; the dependencies are the names, without their ranges.
\<close>

record PackageNode =
  name :: string
  currentVersion :: "semver option"
  folder :: string
  prodDependencies :: "string list"
  devDependencies :: "string list"

text \<open>
  Modelled from the spec: "BumpPlan: { packageName, finalChangeType, newVersion, explicit }".
\<close>

record BumpPlan =
  plan_packageName :: string
  finalChangeType :: ChangeType
  plan_newVersion :: semver
  explicit :: bool

text \<open>
  Modelled from the spec: the four fatal error kinds of its section 7.
\<close>

datatype engine_error =
    InvalidChangeFile string string
  | UnknownPackage string
  | InvalidVersion string
  | CyclicDependency "string list"

subsection \<open>Bump Aggregator\<close>

text \<open>
  Modelled from the spec: the maximum "under the ChangeType order".
\<close>

definition maxChangeType :: "ChangeType \<Rightarrow> ChangeType \<Rightarrow> ChangeType" where
  "maxChangeType a b = (if changeTypeValue a < changeTypeValue b then b else a)"

text \<open>
  Modelled from the spec: "group requests by packageName; final explicit severity =
  maximum under the ChangeType order".
\<close>

fun mergeRequests :: "ChangeRequest list \<Rightarrow> (string \<rightharpoonup> ChangeType)" where
  "mergeRequests [] = Map.empty"
| "mergeRequests (r # rs) =
     (let merged = mergeRequests rs
      in merged(request_packageName r \<mapsto>
           (case merged (request_packageName r) of
              None \<Rightarrow> request_changeType r
            | Some severity \<Rightarrow> maxChangeType (request_changeType r) severity)))"

text \<open>
  Modelled from the spec: the seed set, "packages whose merged explicit severity is patch,
  minor, or major", in the order of the graph's listing.
\<close>

definition seedSet :: "PackageNode list \<Rightarrow> (string \<rightharpoonup> ChangeType) \<Rightarrow> string list" where
  "seedSet graph merged =
     map name (filter (\<lambda>node. merged (name node) \<in> {Some patch, Some minor, Some major}) graph)"

text \<open>
  Modelled from the spec: the reverse-edge index restricted to production edges, "every
  dependent D that consumes P as a production dependency".
\<close>

definition dependents :: "PackageNode list \<Rightarrow> string \<Rightarrow> string list" where
  "dependents graph P = map name (filter (\<lambda>D. P \<in> set (prodDependencies D)) graph)"

text \<open>
  Modelled from the spec: "if D has no explicit severity already assigned, assign D the
  dependency change type (unless already visited with a higher severity) and enqueue D".
  A package that has a change type, requested or assigned, keeps it.
\<close>

fun assignDependents ::
  "string list \<Rightarrow> string list \<times> (string \<rightharpoonup> ChangeType) \<Rightarrow> string list \<times> (string \<rightharpoonup> ChangeType)" where
  "assignDependents [] (worklist, final) = (worklist, final)"
| "assignDependents (D # Ds) (worklist, final) =
     (if final D = None
      then assignDependents Ds (worklist @ [D], final(D \<mapsto> dependency))
      else assignDependents Ds (worklist, final))"

text \<open>
  The packages of the graph without a change type. Each package that is enqueued leaves
  this set, which is why the worklist loop ends.
\<close>

definition unassigned :: "PackageNode list \<Rightarrow> (string \<rightharpoonup> ChangeType) \<Rightarrow> string set" where
  "unassigned graph final = set (map name graph) - dom final"

lemma assignDependents_measure:
  assumes "set Ds \<subseteq> set (map name graph)"
  shows "2 * card (unassigned graph (snd (assignDependents Ds (worklist, final))))
           + length (fst (assignDependents Ds (worklist, final)))
         \<le> 2 * card (unassigned graph final) + length worklist"
  using assms
proof (induction Ds arbitrary: worklist final)
  case Nil
  then show ?case by simp
next
  case (Cons D Ds)
  show ?case
  proof (cases "final D = None")
    case False
    with Cons show ?thesis by auto
  next
    case True
    have fin: "finite (unassigned graph final)"
      by (simp add: unassigned_def)
    have mem: "D \<in> unassigned graph final"
      using True Cons.prems by (auto simp: unassigned_def)
    have eq: "unassigned graph (final(D \<mapsto> dependency)) = unassigned graph final - {D}"
      by (auto simp: unassigned_def)
    have "card (unassigned graph (final(D \<mapsto> dependency))) < card (unassigned graph final)"
      unfolding eq using fin mem by (rule card_Diff1_less)
    moreover have "2 * card (unassigned graph (snd (assignDependents Ds (worklist @ [D], final(D \<mapsto> dependency)))))
           + length (fst (assignDependents Ds (worklist @ [D], final(D \<mapsto> dependency))))
         \<le> 2 * card (unassigned graph (final(D \<mapsto> dependency))) + length (worklist @ [D])"
      by (rule Cons.IH) (use Cons.prems in simp)
    moreover have "assignDependents (D # Ds) (worklist, final)
        = assignDependents Ds (worklist @ [D], final(D \<mapsto> dependency))"
      using True by simp
    ultimately show ?thesis
      by (simp del: assignDependents.simps fun_upd_apply)
  qed
qed

text \<open>
  Modelled from the spec: "maintain a worklist initialized with the seed set [...]. Pop a
  package P; for every dependent D [...]. Continue until the worklist is empty."
\<close>

function propagate ::
  "PackageNode list \<Rightarrow> string list \<Rightarrow> (string \<rightharpoonup> ChangeType) \<Rightarrow> (string \<rightharpoonup> ChangeType)" where
  "propagate graph [] final = final"
| "propagate graph (P # worklist) final =
     propagate graph
       (fst (assignDependents (dependents graph P) (worklist, final)))
       (snd (assignDependents (dependents graph P) (worklist, final)))"
  by pat_completeness auto

termination
proof (relation "measure (\<lambda>(graph, worklist, final). 2 * card (unassigned graph final) + length worklist)")
  show "wf (measure (\<lambda>(graph, worklist, final). 2 * card (unassigned graph final) + length worklist))"
    by simp
next
  fix graph P worklist and final :: "string \<rightharpoonup> ChangeType"
  have "set (dependents graph P) \<subseteq> set (map name graph)"
    by (auto simp: dependents_def)
  from assignDependents_measure [OF this, of worklist final]
  show "((graph, fst (assignDependents (dependents graph P) (worklist, final)),
          snd (assignDependents (dependents graph P) (worklist, final))),
         graph, P # worklist, final)
        \<in> measure (\<lambda>(graph, worklist, final). 2 * card (unassigned graph final) + length worklist)"
    by (simp add: case_prod_beta)
qed

text \<open>
  Modelled from the spec: "effectiveLevel maps major to major, minor to minor, patch to
  patch, dependency to patch".
\<close>

definition effectiveLevel :: "ChangeType \<Rightarrow> ChangeType" where
  "effectiveLevel t = (case t of dependency \<Rightarrow> patch | _ \<Rightarrow> t)"

text \<open>
  Modelled from the spec: "standard major.minor.patch version arithmetic".
\<close>

fun semverIncrement :: "semver \<Rightarrow> ChangeType \<Rightarrow> semver" where
  "semverIncrement (ma, mi, pa) major = (ma + 1, 0, 0)"
| "semverIncrement (ma, mi, pa) minor = (ma, mi + 1, 0)"
| "semverIncrement (ma, mi, pa) patch = (ma, mi, pa + 1)"
| "semverIncrement (ma, mi, pa) level = (ma, mi, pa)"

text \<open>
  Modelled from the spec: the final change type of a package; a package that was neither
  requested nor reached has none.
\<close>

definition finalTypeOf :: "(string \<rightharpoonup> ChangeType) \<Rightarrow> string \<Rightarrow> ChangeType" where
  "finalTypeOf final package = (case final package of None \<Rightarrow> none | Some t \<Rightarrow> t)"

text \<open>
  Modelled from the spec: the BumpPlan of each affected package, and \<open>InvalidVersion\<close> "if a
  package's current version is not valid semver".
\<close>

fun planFor ::
  "(string \<rightharpoonup> ChangeType) \<Rightarrow> (string \<rightharpoonup> ChangeType) \<Rightarrow> PackageNode list
   \<Rightarrow> engine_error + BumpPlan list" where
  "planFor merged final [] = Inr []"
| "planFor merged final (node # rest) =
     (case currentVersion node of
        None \<Rightarrow> Inl (InvalidVersion (name node))
      | Some version \<Rightarrow>
          (case planFor merged final rest of
             Inl e \<Rightarrow> Inl e
           | Inr plans \<Rightarrow>
               Inr (\<lparr>plan_packageName = name node,
                     finalChangeType = finalTypeOf final (name node),
                     plan_newVersion =
                       semverIncrement version (effectiveLevel (finalTypeOf final (name node))),
                     explicit = (merged (name node) \<noteq> None)\<rparr> # plans)))"

text \<open>
  Modelled from the spec: the Bump Aggregator. \<open>UnknownPackage\<close> "if a ChangeRequest names a
  package absent from the Graph"; otherwise merge, seed, propagate, and a "BumpPlan for
  every package with a non-none final type".
\<close>

definition bumpAggregator :: "ChangeRequest list \<Rightarrow> PackageNode list \<Rightarrow> engine_error + BumpPlan list" where
  "bumpAggregator requests graph =
     (case find (\<lambda>r. request_packageName r \<notin> set (map name graph)) requests of
        Some r \<Rightarrow> Inl (UnknownPackage (request_packageName r))
      | None \<Rightarrow>
          (let merged = mergeRequests requests;
               final = propagate graph (seedSet graph merged) merged
           in planFor merged final (filter (\<lambda>node. finalTypeOf final (name node) \<noteq> none) graph)))"

subsection \<open>Publish Sequencer\<close>

text \<open>
  Modelled from the spec: the production edges of a package, read from its node.
\<close>

definition prodDependenciesOf :: "PackageNode list \<Rightarrow> string \<Rightarrow> string list" where
  "prodDependenciesOf graph package =
     (case find (\<lambda>node. name node = package) graph of
        None \<Rightarrow> []
      | Some node \<Rightarrow> prodDependencies node)"

text \<open>
  Modelled from the spec: "in-degree (count of affected production dependencies) per
  affected package".
\<close>

definition inDegrees :: "PackageNode list \<Rightarrow> string list \<Rightarrow> string \<Rightarrow> nat" where
  "inDegrees graph affected package =
     length (remdups (filter (\<lambda>d. d \<in> set affected) (prodDependenciesOf graph package)))"

text \<open>
  Modelled from the spec: Kahn's algorithm, "repeatedly remove a zero-in-degree node,
  append to the order, decrement dependents' in-degree", where "among all currently
  removable nodes, always choose the lexicographically smallest name"; and "if after
  processing some nodes remain with positive in-degree [...] fail fatally with
  CyclicDependency(members), naming every package still unresolved".
\<close>

function kahn ::
  "PackageNode list \<Rightarrow> string list \<Rightarrow> (string \<Rightarrow> nat) \<Rightarrow> string list \<Rightarrow> engine_error + string list" where
  "kahn graph remaining inDegree order =
     (let removable = filter (\<lambda>package. inDegree package = 0) remaining
      in if removable = [] then
           (if remaining = [] then Inr order else Inl (CyclicDependency remaining))
         else
           (let P = Min (set removable);
                inDegree = (\<lambda>D. if P \<in> set (prodDependenciesOf graph D)
                                then inDegree D - 1 else inDegree D)
            in kahn graph (removeAll P remaining) inDegree (order @ [P])))"
  by pat_completeness auto

termination
proof (relation "measure (\<lambda>(graph, remaining, inDegree, order). length remaining)")
  show "wf (measure (\<lambda>(graph, remaining, inDegree, order). length remaining))"
    by simp
next
  fix graph :: "PackageNode list" and remaining :: "string list" and inDegree :: "string \<Rightarrow> nat"
    and order :: "string list" and removable P inDegree'
  assume r: "removable = filter (\<lambda>package. inDegree package = 0) remaining" "removable \<noteq> []"
    and P: "P = Min (set removable)"
  have "P \<in> set removable"
    unfolding P using r(2) by (intro Min_in) simp_all
  then have "P \<in> set remaining"
    using r(1) by simp
  then show "((graph, removeAll P remaining, inDegree', order @ [P]), graph, remaining, inDegree, order)
      \<in> measure (\<lambda>(graph, remaining, inDegree, order). length remaining)"
    by (simp add: length_removeAll_less)
qed

declare kahn.simps [simp del]

text \<open>
  Modelled from the spec: the Publish Sequencer, on the affected set and the graph.
\<close>

definition publishSequencer :: "PackageNode list \<Rightarrow> string list \<Rightarrow> engine_error + string list" where
  "publishSequencer graph affected = kahn graph affected (inDegrees graph affected) []"

text \<open>
  Modelled from the spec: the engine, "Aggregator, then Sequencer": "success with
  PublishOrder + BumpPlan, or one of the fatal error kinds".
\<close>

definition runEngine ::
  "ChangeRequest list \<Rightarrow> PackageNode list \<Rightarrow> engine_error + string list \<times> BumpPlan list" where
  "runEngine requests graph =
     (case bumpAggregator requests graph of
        Inl e \<Rightarrow> Inl e
      | Inr plan \<Rightarrow>
          (case publishSequencer graph (map plan_packageName plan) of
             Inl e \<Rightarrow> Inl e
           | Inr order \<Rightarrow> Inr (order, plan)))"

section \<open>What the properties observe\<close>

text \<open>
  Predicates and projections on the events of a run, the chain of \<open>extends\<close>, and the
  invariants of the two loops of the engine. They are what the properties are stated
  with; none of them is part of a program.
\<close>

text \<open>
  The event is the deletion of a file.
\<close>

fun is_delete :: "event \<Rightarrow> bool" where
  "is_delete (DeleteFile f) = True"
| "is_delete e = False"

text \<open>
  The event is a manifest written to disk.
\<close>

fun is_write :: "event \<Rightarrow> bool" where
  "is_write (WriteManifest f t) = True"
| "is_write e = False"

text \<open>
  The event is a git command that ran (the git commands pass no environment).
\<close>

fun is_git :: "event \<Rightarrow> bool" where
  "is_git (ExecuteCommand c args wd env) = (c = ''git'' \<and> env = None)"
| "is_git e = False"

text \<open>
  The event is \<open>git commit\<close>, run.
\<close>

fun is_commit :: "event \<Rightarrow> bool" where
  "is_commit (ExecuteCommand c args wd env) = (c = ''git'' \<and> take (Suc 0) args = [''commit''])"
| "is_commit e = False"

text \<open>
  The event is \<open>git tag\<close>, run.
\<close>

fun is_tag :: "event \<Rightarrow> bool" where
  "is_tag (ExecuteCommand c args wd env) = (c = ''git'' \<and> take (Suc 0) args = [''tag''])"
| "is_tag e = False"

text \<open>
  The event is a command whose first argument is \<open>publish\<close>, run: \<open>npm publish\<close>.
\<close>

fun is_publish :: "event \<Rightarrow> bool" where
  "is_publish (ExecuteCommand c args wd env) = (take (Suc 0) args = [''publish''])"
| "is_publish e = False"

text \<open>
  The folder in which \<open>npm publish\<close> ran, for such an event.
\<close>

fun publishedFolder :: "event \<Rightarrow> string option" where
  "publishedFolder (ExecuteCommand c args wd env) =
     (if take (Suc 0) args = [''publish''] then Some wd else None)"
| "publishedFolder e = None"

text \<open>
  The folders in which a run published, in order.
\<close>

definition published :: "event list \<Rightarrow> string list" where
  "published tr = List.map_filter publishedFolder tr"

text \<open>
  The statements of \<open>onExecute\<close> that follow the publishing loop.
\<close>

definition afterPublish :: "host \<Rightarrow> parameters \<Rightarrow> IChangeInfo list \<Rightarrow> outcome list" where
  "afterPublish h p orderedChanges =
     (let tempBranch = ''publish-'' @ show_nat (now h)
      in [gitAddTags h p orderedChanges,
          gitPush h p (Some tempBranch),
          gitCheckout h p (targetBranch_value p) False,
          gitPull h p,
          gitMerge h p tempBranch,
          gitPush h p (targetBranch_value p),
          gitDeleteBranch h p tempBranch])"

text \<open>
  The event is \<open>git add\<close>, run.
\<close>

fun is_stage :: "event \<Rightarrow> bool" where
  "is_stage (ExecuteCommand c args wd env) = (c = ''git'' \<and> take (Suc 0) args = [''add''])"
| "is_stage e = False"

text \<open>
  The paths that \<open>_deleteChangeFiles\<close> lists: the entries of \<open>changes\<close> under the working
  directory whose name contains \<open>.json\<close>, none when the folder cannot be read.
\<close>

definition changeFilePaths :: "host \<Rightarrow> string list" where
  "changeFilePaths h =
     (case readdirSync h (path_join h (cwd h) ''changes'') of
        None \<Rightarrow> []
      | Some names \<Rightarrow>
          map (path_join h (path_join h (cwd h) ''changes''))
            (filter (\<lambda>filename. 0 \<le> indexOf ''.json'' filename) names))"

text \<open>
  The events of a run before \<open>git commit\<close> runs.
\<close>

definition untilCommit :: "event list \<Rightarrow> event list" where
  "untilCommit tr = takeWhile (\<lambda>e. \<not> is_commit e) tr"

text \<open>
  The guard of the publishing loop: \<open>change.changeType > ChangeType.dependency\<close>.
\<close>

definition aboveDependency :: "IChangeInfo \<Rightarrow> bool" where
  "aboveDependency change \<longleftrightarrow> changeTypeValue (changeType change) > changeTypeValue dependency"

text \<open>
  The project folders of the changes that pass the guard, in the order of the plan;
  \<open>None\<close> for a package that the configuration does not know.
\<close>

definition foldersToPublish :: "RushConfig \<Rightarrow> IChangeInfo list \<Rightarrow> string option list" where
  "foldersToPublish rushConfig orderedChanges =
     map (\<lambda>change. map_option projectFolder (projectsByName rushConfig (packageName change)))
       (filter aboveDependency orderedChanges)"

text \<open>
  A command as \<open>_execCommand\<close> receives it: the command, its arguments, the working
  directory and the environment.
\<close>

type_synonym command = "string \<times> string list \<times> string \<times> (string \<times> string) list option"

text \<open>
  The text of a command on the console: the command, its arguments and, in
  parentheses, the working directory relative to the current one when they differ.
\<close>

definition commandText :: "host \<Rightarrow> command \<Rightarrow> string" where
  "commandText h = (\<lambda>(command, args, workingDirectory, env).
     command @ '' '' @ join_with '' '' args @ '' ''
     @ (if path_relative h (cwd h) workingDirectory \<noteq> []
        then ''('' @ path_relative h (cwd h) workingDirectory @ '')'' else []))"

text \<open>
  The execution of a command.
\<close>

definition executedAs :: "command \<Rightarrow> event" where
  "executedAs = (\<lambda>(command, args, workingDirectory, env).
     ExecuteCommand command args workingDirectory env)"

text \<open>
  What a run shows of a command: the line \<open>EXECUTING\<close> and the execution, or the line
  \<open>DRYRUN\<close> alone.
\<close>

definition performedAs :: "host \<Rightarrow> bool \<Rightarrow> command \<Rightarrow> event list" where
  "performedAs h shouldExecute c =
     (if shouldExecute
      then [Log (EOL h @ ''* EXECUTING: '' @ commandText h c), executedAs c]
      else [Log (EOL h @ ''* DRYRUN: '' @ commandText h c)])"

text \<open>
  The event is a manifest edit, written or reported.
\<close>

fun is_manifest :: "event \<Rightarrow> bool" where
  "is_manifest (WriteManifest f t) = True"
| "is_manifest (ReportManifest f t) = True"
| "is_manifest e = False"

text \<open>
  The command with which \<open>_npmPublish\<close> publishes a change: \<open>npm publish\<close> in the folder
  of the project, with the token and the registry of the parameters.
\<close>

definition npmPublishCommand :: "host \<Rightarrow> parameters \<Rightarrow> RushConfig \<Rightarrow> IChangeInfo \<Rightarrow> command" where
  "npmPublishCommand h p rushConfig change =
     (npmToolFilename rushConfig,
      ''publish'' # (if truthy (npmAuthToken_value p)
                     then [''--//registry.npmjs.org/:_authToken='' @ js_str (npmAuthToken_value p)]
                     else []),
      (case projectsByName rushConfig (packageName change) of
         None \<Rightarrow> [] | Some project \<Rightarrow> projectFolder project),
      Some (if truthy (registryUrl_value p)
            then obj_set ''npm_config_registry'' (js_str (registryUrl_value p)) (process_env h)
            else process_env h))"

text \<open>
  The command with which \<open>_gitAddTags\<close> tags a change.
\<close>

definition gitTagCommand :: "host \<Rightarrow> IChangeInfo \<Rightarrow> command" where
  "gitTagCommand h change =
     (''git'',
      [''tag'', ''-a'', packageName change @ ''_v'' @ newVersion change, ''-m'',
       [dquote] @ packageName change @ '' v'' @ newVersion change @ [dquote]],
      cwd h, None)"

text \<open>
  The files that \<open>JsonFile.load\<close> can load.
\<close>

definition loadable :: "extractor_host \<Rightarrow> string set" where
  "loadable h = {file. \<exists>c. jsonFileLoad h file = Inr c}"

text \<open>
  The chain of \<open>extends\<close>: the file and the configuration object with which the loop body
  is entered for the \<open>n\<close>-th time, when the earlier passes threw nothing and found an
  \<open>extends\<close> field; and the files of the passes before the \<open>n\<close>-th.
\<close>

fun extendsChain :: "extractor_host \<Rightarrow> string \<Rightarrow> nat \<Rightarrow> (string \<times> config) option" where
  "extendsChain h start 0 = Some (start, [])"
| "extendsChain h start (Suc n) =
     (case extendsChain h start n of
        None \<Rightarrow> None
      | Some (file, configObject) \<Rightarrow>
          (case loadStep h file configObject of
             Inl message \<Rightarrow> None
           | Inr (extendsField, configObject) \<Rightarrow>
               if extendsField \<noteq> [] then Some (extendsField, configObject) else None))"

definition processedBefore :: "extractor_host \<Rightarrow> string \<Rightarrow> nat \<Rightarrow> string set" where
  "processedBefore h start n = set (map fst (List.map_filter (extendsChain h start) [0..<n]))"

text \<open>
  The production dependencies of a package that lie in a set.
\<close>

definition depsIn :: "PackageNode list \<Rightarrow> string set \<Rightarrow> string \<Rightarrow> string set" where
  "depsIn graph S package = set (prodDependenciesOf graph package) \<inter> S"

text \<open>
  The invariant of Kahn's loop: the packages still to place and the packages placed make
  up the affected set; each counter is the number of production dependencies still to
  place; each package placed has its affected dependencies before it, and was the
  smallest name that could be placed.
\<close>

definition kahnInv ::
  "PackageNode list \<Rightarrow> string set \<Rightarrow> string list \<Rightarrow> (string \<Rightarrow> nat) \<Rightarrow> string list \<Rightarrow> bool" where
  "kahnInv graph affected remaining inDegree order \<longleftrightarrow>
     set remaining \<union> set order = affected
     \<and> set remaining \<inter> set order = {}
     \<and> distinct order
     \<and> (\<forall>n\<in>set remaining. inDegree n = card (depsIn graph (set remaining) n))
     \<and> (\<forall>i<length order. depsIn graph affected (order ! i) \<subseteq> set (take i order))
     \<and> (\<forall>i<length order. \<forall>n\<in>affected - set (take i order).
           depsIn graph affected n \<subseteq> set (take i order) \<longrightarrow> order ! i \<le> n)"

text \<open>
  The change types that the requests ask for a package.
\<close>

definition requestedTypes :: "ChangeRequest list \<Rightarrow> string \<Rightarrow> ChangeType set" where
  "requestedTypes requests package =
     request_changeType ` {r \<in> set requests. request_packageName r = package}"




section \<open>Example inputs\<close>

definition example_host :: host where
  "example_host =
     \<lparr>EOL = [newline], cwd = ''/repo'', now = 7, process_env = [],
      path_join = (\<lambda>a b. a @ ''/'' @ b),
      path_relative = (\<lambda>a b. if a = b then [] else b),
      green = (\<lambda>s. s),
      readdirSync = (\<lambda>d. if d = ''/repo/changes'' then Some [''a.json'', ''notes.txt''] else None),
      executeCommand = (\<lambda>c a wd env. True)\<rparr>"

definition example_parameters :: parameters where
  "example_parameters =
     \<lparr>apply_value = True, publish_value = True, targetBranch_value = Some ''master'',
      registryUrl_value = None, npmAuthToken_value = None\<rparr>"

definition example_dry_parameters :: parameters where
  "example_dry_parameters =
     \<lparr>apply_value = False, publish_value = False, targetBranch_value = None,
      registryUrl_value = None, npmAuthToken_value = None\<rparr>"

definition example_config :: RushConfig where
  "example_config =
     \<lparr>commonFolder = ''/repo/common'', npmToolFilename = ''npm'',
      projectsByName = map_of [(''A'', \<lparr>projectFolder = ''/repo/a''\<rparr>),
                               (''B'', \<lparr>projectFolder = ''/repo/b''\<rparr>)]\<rparr>"

definition example_plan :: "IChangeInfo list" where
  "example_plan =
     [\<lparr>packageName = ''B'', changeType = patch, newVersion = ''1.0.1''\<rparr>,
      \<lparr>packageName = ''A'', changeType = dependency, newVersion = ''1.0.1''\<rparr>]"

definition example_edits :: "(string \<times> string) list" where
  "example_edits = [(''/repo/b/package.json'', ''1.0.1''), (''/repo/a/package.json'', ''1.0.1'')]"

definition example_findChangeRequests :: "(string \<Rightarrow> RushConfigProject option) \<Rightarrow> string \<Rightarrow> unit" where
  "example_findChangeRequests = (\<lambda>allPackages changesPath. ())"

definition example_sortChangeRequests :: "unit \<Rightarrow> IChangeInfo list" where
  "example_sortChangeRequests = (\<lambda>allChanges. example_plan)"

definition example_intendedEdits :: "unit \<Rightarrow> (string \<times> string) list" where
  "example_intendedEdits = (\<lambda>allChanges. example_edits)"

definition example_run :: "parameters \<Rightarrow> outcome" where
  "example_run p =
     onExecute example_host p example_config example_findChangeRequests
       example_sortChangeRequests example_intendedEdits"

definition example_common_host :: host where
  "example_common_host =
     example_host\<lparr>cwd := ''/repo/common'',
       readdirSync := (\<lambda>d. if d = ''/repo/common/changes'' then Some [''b_patch.json''] else None)\<rparr>"

definition example_crash_host :: host where
  "example_crash_host =
     example_common_host\<lparr>executeCommand := (\<lambda>c a wd env. take 1 a \<noteq> [''add''])\<rparr>"

definition example_readChangeFiles :: "(string \<Rightarrow> RushConfigProject option) \<Rightarrow> string \<Rightarrow> string list" where
  "example_readChangeFiles =
     (\<lambda>allPackages changesPath.
        case readdirSync example_common_host changesPath of
          None \<Rightarrow> []
        | Some names \<Rightarrow> map (path_join example_common_host changesPath) names)"

definition example_planOfFiles :: "string list \<Rightarrow> IChangeInfo list" where
  "example_planOfFiles = (\<lambda>consumed. if consumed = [] then [] else example_plan)"

definition example_editsOfFiles :: "string list \<Rightarrow> (string \<times> string) list" where
  "example_editsOfFiles = (\<lambda>consumed. example_edits)"

definition example_extractor_host :: extractor_host where
  "example_extractor_host =
     \<lparr>processCwd = ''/p'',
      pathResolve = (\<lambda>folder rel. if take 2 rel = ''./'' then folder @ ''/'' @ drop 2 rel
                                   else if take 1 rel = ''/'' then rel else folder @ ''/'' @ rel),
      pathDirname = (\<lambda>file. ''/p''),
      pathIsAbsolute = (\<lambda>file. take 1 file = ''/''),
      pathJoin = (\<lambda>folder rel. folder @ ''/'' @ rel),
      jsonFileLoad = (\<lambda>file.
         case map_of
           [(''/p/a.json'', [(''extends'', ''./b.json''), (''projectFolder'', ''.'')]),
            (''/p/b.json'', [(''extends'', ''./a.json'')]),
            (''/p/c.json'', [(''extends'', ''./d.json''), (''mainEntryPointFilePath'', ''lib/index.d.ts'')]),
            (''/p/d.json'', [(''projectFolder'', ''<projectFolder>/x''), (''mainEntryPointFilePath'', ''y'')])]
           file of
           None \<Rightarrow> Inl ''ENOENT''
         | Some c \<Rightarrow> Inr c),
      resolveSync = (\<lambda>name folder. Inl ''Cannot find module''),
      defaultConfig = [(''newlineKind'', ''crlf'')],
      validateObject = (\<lambda>c file. None)\<rparr>"

definition example_graph :: "PackageNode list" where
  "example_graph =
     [\<lparr>name = ''A'', currentVersion = Some (1, 0, 0), folder = ''a'',
       prodDependencies = [''B''], devDependencies = []\<rparr>,
      \<lparr>name = ''B'', currentVersion = Some (1, 0, 0), folder = ''b'',
       prodDependencies = [], devDependencies = []\<rparr>,
      \<lparr>name = ''C'', currentVersion = Some (2, 0, 0), folder = ''c'',
       prodDependencies = [], devDependencies = []\<rparr>,
      \<lparr>name = ''D'', currentVersion = Some (1, 0, 0), folder = ''d'',
       prodDependencies = [], devDependencies = [''E'']\<rparr>,
      \<lparr>name = ''E'', currentVersion = Some (1, 0, 0), folder = ''e'',
       prodDependencies = [], devDependencies = []\<rparr>,
      \<lparr>name = ''F'', currentVersion = Some (1, 0, 0), folder = ''f'',
       prodDependencies = [''G''], devDependencies = []\<rparr>,
      \<lparr>name = ''G'', currentVersion = Some (1, 0, 0), folder = ''g'',
       prodDependencies = [''F''], devDependencies = []\<rparr>]"

definition request :: "string \<Rightarrow> ChangeType \<Rightarrow> ChangeRequest" where
  "request p t = \<lparr>request_packageName = p, request_changeType = t, request_comment = []\<rparr>"



section \<open>Properties of \<open>PublishAction\<close>\<close>

lemma then_do_events:
  "fst (then_do a b) = fst a @ (if snd a = None then fst b else [])"
  by (cases a; cases "snd a") auto

lemma then_do_ok: "snd (then_do a b) = (if snd a = None then snd b else snd a)"
  by (cases a; cases "snd a") auto

lemma filter_then_do:
  "filter P (fst (then_do a b)) = filter P (fst a) @ (if snd a = None then filter P (fst b) else [])"
  by (simp add: then_do_events)

lemma filter_seq_Nil:
  "(\<And>a. a \<in> set os \<Longrightarrow> filter P (fst a) = []) \<Longrightarrow> filter P (fst (seq os)) = []"
  by (induction os) (auto simp: then_do_events)

lemma filter_dropWhile_Nil: "filter Q tr = [] \<Longrightarrow> filter Q (dropWhile P tr) = []"
  by (metis filter_empty_conv set_dropWhileD)

lemma after_then_do_skip:
  assumes "filter (\<lambda>e. \<not> P e) (fst a) = []" and "filter Q (dropWhile P (fst b)) = []"
  shows "filter Q (dropWhile P (fst (then_do a b))) = []"
proof -
  have all: "\<forall>e\<in>set (fst a). P e"
    using assms(1) by (auto simp: filter_empty_conv)
  then have "dropWhile P (fst a @ xs) = dropWhile P xs" for xs
    by (simp add: dropWhile_append2)
  with assms(2) show ?thesis
    by (simp add: then_do_events)
qed

lemma after_then_do_keep:
  assumes "filter Q (dropWhile P (fst a)) = []" and "filter Q (fst b) = []"
  shows "filter Q (dropWhile P (fst (then_do a b))) = []"
proof (cases "\<forall>e\<in>set (fst a). P e")
  case True
  then have "dropWhile P (fst a @ xs) = dropWhile P xs" for xs
    by (simp add: dropWhile_append2)
  with assms(2) show ?thesis
    by (simp add: then_do_events filter_dropWhile_Nil)
next
  case False
  then have "dropWhile P (fst a @ xs) = dropWhile P (fst a) @ xs" for xs
    by (auto simp: dropWhile_append1)
  with assms show ?thesis
    by (simp add: then_do_events)
qed

lemma split_on_not_Nil: "split_on c s \<noteq> []"
  by (induction s) (auto split: list.splits)

lemma hd_split_on_Cons:
  "hd (split_on c (x # xs)) = (if x = c then [] else x # hd (split_on c xs))"
  using split_on_not_Nil [of c xs] by (cases "split_on c xs") auto

lemma take1_split_on: "take (Suc 0) (split_on c s) = [hd (split_on c s)]"
  using split_on_not_Nil [of c s] by (cases "split_on c s") auto

lemma filter_execCommand:
  "(\<And>s. \<not> P (Log s)) \<Longrightarrow>
   filter P (fst (execCommand h b c a wd env)) =
     (if b \<and> P (ExecuteCommand c a wd env) then [ExecuteCommand c a wd env] else [])"
  by (simp add: execCommand_def Let_def)

lemmas git_defs = gitCheckout_def gitMerge_def gitDeleteBranch_def gitPull_def gitAddChanges_def
  gitCommit_def gitPush_def

lemma filter_git_Nil:
  assumes log: "\<And>s. \<not> P (Log s)"
    and git: "\<And>v a. truthy (targetBranch_value p) \<Longrightarrow> v \<in> V \<Longrightarrow> take (Suc 0) a = [v] \<Longrightarrow>
           \<not> P (ExecuteCommand ''git'' a (cwd h) None)"
  shows "''checkout'' \<in> V \<Longrightarrow> filter P (fst (gitCheckout h p br cb)) = []"
    and "''merge'' \<in> V \<Longrightarrow> filter P (fst (gitMerge h p b)) = []"
    and "''branch'' \<in> V \<Longrightarrow> ''push'' \<in> V \<Longrightarrow> filter P (fst (gitDeleteBranch h p b)) = []"
    and "''pull'' \<in> V \<Longrightarrow> filter P (fst (gitPull h p)) = []"
    and "''add'' \<in> V \<Longrightarrow> filter P (fst (gitAddChanges h p)) = []"
    and "''commit'' \<in> V \<Longrightarrow> filter P (fst (gitCommit h p)) = []"
    and "''push'' \<in> V \<Longrightarrow> filter P (fst (gitPush h p br)) = []"
proof -
  have E: "filter P (fst (execCommand h (truthy (targetBranch_value p)) ''git'' a (cwd h) None)) = []"
    if "v \<in> V" and "take (Suc 0) a = [v]" for v a
    using that git by (simp add: filter_execCommand [of P, OF log])
  show "''checkout'' \<in> V \<Longrightarrow> filter P (fst (gitCheckout h p br cb)) = []"
    unfolding gitCheckout_def Let_def
    by (rule E [of "''checkout''"]) (simp_all add: take1_split_on hd_split_on_Cons del: split_on.simps)
  show "''merge'' \<in> V \<Longrightarrow> filter P (fst (gitMerge h p b)) = []"
    unfolding gitMerge_def
    by (rule E [of "''merge''"]) (simp_all add: take1_split_on hd_split_on_Cons del: split_on.simps)
  show "''pull'' \<in> V \<Longrightarrow> filter P (fst (gitPull h p)) = []"
    unfolding gitPull_def
    by (rule E [of "''pull''"]) (simp_all add: take1_split_on hd_split_on_Cons del: split_on.simps)
  show "''add'' \<in> V \<Longrightarrow> filter P (fst (gitAddChanges h p)) = []"
    unfolding gitAddChanges_def by (rule E [of "''add''"]) simp_all
  show "''commit'' \<in> V \<Longrightarrow> filter P (fst (gitCommit h p)) = []"
    unfolding gitCommit_def by (rule E [of "''commit''"]) simp_all
  show "''push'' \<in> V \<Longrightarrow> filter P (fst (gitPush h p br)) = []"
    unfolding gitPush_def by (rule E [of "''push''"]) simp_all
  show "''branch'' \<in> V \<Longrightarrow> ''push'' \<in> V \<Longrightarrow> filter P (fst (gitDeleteBranch h p b)) = []"
    unfolding gitDeleteBranch_def filter_then_do
    using E [of "''branch''" "split_on CHR '' '' (''branch -d '' @ b)"]
      E [of "''push''" "split_on CHR '' '' (''push origin --delete '' @ b)"]
    by (simp add: take1_split_on hd_split_on_Cons del: split_on.simps)
qed

lemma filter_updatePackages:
  "filter P (fst (updatePackages es b)) = [] \<longleftrightarrow>
     (\<forall>(f, t)\<in>set es. \<not> P (if b then WriteManifest f t else ReportManifest f t))"
  by (cases b) (auto simp: updatePackages_def filter_empty_conv)

lemma updatePackages_ok: "snd (updatePackages es b) = None"
  by (simp add: updatePackages_def)

lemma deleteChangeFiles_ok: "snd (deleteChangeFiles h p) = None"
  by (simp add: deleteChangeFiles_def Let_def)

lemma filter_deleteChangeFiles_Nil:
  "(\<And>s. \<not> P (Log s)) \<Longrightarrow> (\<And>f. truthy (targetBranch_value p) \<Longrightarrow> \<not> P (DeleteFile f)) \<Longrightarrow>
   filter P (fst (deleteChangeFiles h p)) = []"
  by (auto simp: deleteChangeFiles_def Let_def filter_empty_conv)

lemma filter_gitAddTags_Nil:
  assumes "\<And>s. \<not> P (Log s)"
    and "\<And>a. truthy (targetBranch_value p) \<Longrightarrow> publish_value p \<Longrightarrow>
           \<not> P (ExecuteCommand ''git'' (''tag'' # a) (cwd h) None)"
  shows "filter P (fst (gitAddTags h p cs)) = []"
  using assms(2) by (induction cs) (simp_all add: filter_then_do filter_execCommand [of P, OF assms(1)] Let_def)

lemma filter_publishChanges_Nil:
  assumes "\<And>s. \<not> P (Log s)"
    and "\<And>c a wd env. publish_value p \<Longrightarrow> \<not> P (ExecuteCommand c (''publish'' # a) wd (Some env))"
  shows "filter P (fst (publishChanges h p cfg cs)) = []"
  using assms(2)
  by (induction cs)
     (simp_all add: filter_then_do filter_execCommand [of P, OF assms(1)] npmPublish_def Let_def
        split: option.splits)

lemma then_do_Nil_right: "then_do a ([], None) = a"
  by (cases a; cases "snd a") auto

lemma onExecute_shape:
  "onExecute h p cfg fc sc ie =
     (let allChanges = fc (projectsByName cfg) (path_join h (commonFolder cfg) ''changes'');
          orderedChanges = sc allChanges
      in then_do ([Log (''Starting '' @ [dquote] @ ''rush publish'' @ [dquote] @ '' '' @ EOL h)], None)
        (then_do
           (if orderedChanges \<noteq> [] then
              then_do (gitCheckout h p (Some (''publish-'' @ show_nat (now h))) True)
                (then_do (updatePackages (ie allChanges) (apply_value p))
                   (then_do (deleteChangeFiles h p)
                      (then_do (gitAddChanges h p)
                         (then_do (gitCommit h p)
                            (then_do (gitPush h p (Some (''publish-'' @ show_nat (now h))))
                               (then_do (publishChanges h p cfg orderedChanges)
                                  (seq (afterPublish h p orderedChanges))))))))
            else ([], None))
           ([Log (EOL h @ green h ''Rush publish finished successfully.'')], None)))"
  by (simp add: onExecute_def afterPublish_def Let_def then_do_Nil_right del: then_do.simps)

lemma filter_afterPublish_Nil:
  assumes log: "\<And>s. \<not> P (Log s)"
    and git: "\<And>v a. truthy (targetBranch_value p) \<Longrightarrow>
           v \<in> {''checkout'', ''merge'', ''branch'', ''push'', ''pull''} \<Longrightarrow>
           take (Suc 0) a = [v] \<Longrightarrow> \<not> P (ExecuteCommand ''git'' a (cwd h) None)"
    and tag: "\<And>a. truthy (targetBranch_value p) \<Longrightarrow> publish_value p \<Longrightarrow>
           \<not> P (ExecuteCommand ''git'' (''tag'' # a) (cwd h) None)"
  shows "filter P (fst (seq (afterPublish h p cs))) = []"
proof -
  note G = filter_git_Nil [of P p "{''checkout'', ''merge'', ''branch'', ''push'', ''pull''}" h, OF log git]
  have g: "filter P (fst (gitCheckout h p br cb)) = []" "filter P (fst (gitMerge h p b)) = []"
    "filter P (fst (gitDeleteBranch h p b)) = []" "filter P (fst (gitPull h p)) = []"
    "filter P (fst (gitPush h p br)) = []" for br cb b
    by (rule G; simp)+
  show ?thesis
    unfolding afterPublish_def Let_def
    by (rule filter_seq_Nil) (auto simp: g filter_gitAddTags_Nil [of P p h cs, OF log tag])
qed

lemma filter_onExecute_Nil:
  assumes log: "\<And>s. \<not> P (Log s)"
    and git: "\<And>v a. truthy (targetBranch_value p) \<Longrightarrow>
           v \<in> {''checkout'', ''merge'', ''branch'', ''push'', ''pull'', ''add'', ''commit''} \<Longrightarrow>
           take (Suc 0) a = [v] \<Longrightarrow> \<not> P (ExecuteCommand ''git'' a (cwd h) None)"
    and tag: "\<And>a. truthy (targetBranch_value p) \<Longrightarrow> publish_value p \<Longrightarrow>
           \<not> P (ExecuteCommand ''git'' (''tag'' # a) (cwd h) None)"
    and npm: "\<And>c a wd env. publish_value p \<Longrightarrow> \<not> P (ExecuteCommand c (''publish'' # a) wd (Some env))"
    and del: "\<And>f. truthy (targetBranch_value p) \<Longrightarrow> \<not> P (DeleteFile f)"
    and upd: "\<And>f t. \<not> P (if apply_value p then WriteManifest f t else ReportManifest f t)"
  shows "filter P (fst (onExecute h p cfg fc sc ie)) = []"
proof -
  have git': "\<And>v a. truthy (targetBranch_value p) \<Longrightarrow>
           v \<in> {''checkout'', ''merge'', ''branch'', ''push'', ''pull''} \<Longrightarrow>
           take (Suc 0) a = [v] \<Longrightarrow> \<not> P (ExecuteCommand ''git'' a (cwd h) None)"
    using git by blast
  note G = filter_git_Nil [of P p "{''checkout'', ''merge'', ''branch'', ''push'', ''pull'', ''add'', ''commit''}" h,
      OF log git]
  have g: "filter P (fst (gitCheckout h p br cb)) = []" "filter P (fst (gitAddChanges h p)) = []"
    "filter P (fst (gitCommit h p)) = []" "filter P (fst (gitPush h p br)) = []" for br cb
    by (rule G; simp)+
  have rest: "filter P (fst (seq (afterPublish h p cs))) = []" for cs
    by (rule filter_afterPublish_Nil [OF log git' tag])
  have u: "filter P (fst (updatePackages es (apply_value p))) = []" for es
    using upd by (auto simp: filter_updatePackages)
  show ?thesis
    unfolding onExecute_shape Let_def
    by (simp add: filter_then_do g rest u log filter_deleteChangeFiles_Nil [OF log del]
        filter_publishChanges_Nil [OF log npm] del: then_do.simps)
qed

lemmas example_defs = example_run_def example_findChangeRequests_def example_sortChangeRequests_def
  example_intendedEdits_def example_host_def example_parameters_def
  example_dry_parameters_def example_config_def example_plan_def example_edits_def

lemma show_nat_7: "show_nat 7 = ''7''"
  by (simp add: show_nat.simps digit_char_def)

lemmas run_defs = onExecute_def Let_def git_defs execCommand_def deleteChangeFiles_def
  updatePackages_def npmPublish_def getEnvArgs_def truthy_def js_str_def indexOf_def show_nat_7

lemma onExecute_deletes:
  "filter is_delete (fst (onExecute h p cfg fc sc ie)) =
     (if sc (fc (projectsByName cfg) (path_join h (commonFolder cfg) ''changes'')) \<noteq> []
         \<and> snd (gitCheckout h p (Some (''publish-'' @ show_nat (now h))) True) = None
      then filter is_delete (fst (deleteChangeFiles h p)) else [])"
proof -
  have log: "\<And>s. \<not> is_delete (Log s)" by simp
  note G = filter_git_Nil [of is_delete p UNIV h, OF log]
  have g: "filter is_delete (fst (gitCheckout h p br cb)) = []"
    "filter is_delete (fst (gitAddChanges h p)) = []"
    "filter is_delete (fst (gitCommit h p)) = []" "filter is_delete (fst (gitPush h p br)) = []" for br cb
    by (rule G; simp)+
  have rest: "filter is_delete (fst (seq (afterPublish h p cs))) = []" for cs
    by (rule filter_afterPublish_Nil) simp_all
  show ?thesis
    unfolding onExecute_shape Let_def
    by (simp add: filter_then_do g rest filter_updatePackages updatePackages_ok deleteChangeFiles_ok
        filter_publishChanges_Nil [of is_delete] split: prod.splits del: then_do.simps)
qed

lemma deleteChangeFiles_deletes:
  "filter is_delete (fst (deleteChangeFiles h p)) =
     (if truthy (targetBranch_value p) then
        (case readdirSync h (path_join h (cwd h) ''changes'') of
           None \<Rightarrow> []
         | Some names \<Rightarrow>
             map (\<lambda>fileName. DeleteFile (path_join h (path_join h (cwd h) ''changes'') fileName))
               (filter (\<lambda>filename. 0 \<le> indexOf ''.json'' filename) names))
      else [])"
proof -
  have "filter is_delete (concat (map (\<lambda>f. [Log (l f), DeleteFile (d f)]) xs)) = map (\<lambda>f. DeleteFile (d f)) xs"
    for l d and xs :: "string list"
    by (induction xs) auto
  moreover have "filter is_delete (concat (map (\<lambda>f. [Log (l f)]) xs)) = []"
    for l and xs :: "string list"
    by (induction xs) auto
  ultimately show ?thesis
    by (simp add: deleteChangeFiles_def Let_def split: option.splits)
qed

text \<open>
  Claim C9. When the target-branch parameter is set, \<open>_deleteChangeFiles\<close> deletes every
  entry of the folder \<open>changes\<close> under the current working directory whose name
  contains \<open>.json\<close>, and nothing else; when the folder cannot be read the exception is
  swallowed, and nothing is logged or deleted. What a run of \<open>onExecute\<close> deletes depends
  on the change requests only through whether there is any, so it is not limited to the
  files that were consumed; and the requests are read from \<open>changes\<close> under the common
  folder, a path computed from the configuration and not from the working directory.
\<close>

theorem deleteChangeFiles_every_json_under_cwd:
  "filter is_delete (fst (deleteChangeFiles h p)) =
     (if truthy (targetBranch_value p) then
        (case readdirSync h (path_join h (cwd h) ''changes'') of
           None \<Rightarrow> []
         | Some names \<Rightarrow>
             map (\<lambda>fileName. DeleteFile (path_join h (path_join h (cwd h) ''changes'') fileName))
               (filter (\<lambda>filename. 0 \<le> indexOf ''.json'' filename) names))
      else [])
   \<and> (readdirSync h (path_join h (cwd h) ''changes'') = None \<longrightarrow> deleteChangeFiles h p = ([], None))
   \<and> filter is_delete (fst (onExecute h p rushConfig findChangeRequests sortChangeRequests intendedEdits)) =
       (if sortChangeRequests (findChangeRequests (projectsByName rushConfig)
              (path_join h (commonFolder rushConfig) ''changes'')) \<noteq> []
           \<and> snd (gitCheckout h p (Some (''publish-'' @ show_nat (now h))) True) = None
        then filter is_delete (fst (deleteChangeFiles h p)) else [])
   \<and> onExecute h p rushConfig findChangeRequests sortChangeRequests intendedEdits =
       onExecute h p rushConfig
         (\<lambda>allPackages changesPath. findChangeRequests (projectsByName rushConfig)
              (path_join h (commonFolder rushConfig) ''changes''))
         sortChangeRequests intendedEdits"
proof (intro conjI impI)
  show "onExecute h p rushConfig findChangeRequests sortChangeRequests intendedEdits =
       onExecute h p rushConfig
         (\<lambda>allPackages changesPath. findChangeRequests (projectsByName rushConfig)
              (path_join h (commonFolder rushConfig) ''changes''))
         sortChangeRequests intendedEdits"
    by (simp add: onExecute_def)
qed (simp_all add: deleteChangeFiles_deletes onExecute_deletes, simp add: deleteChangeFiles_def)

theorem deleteChangeFiles_every_json_under_cwd_witness:
  "filter is_delete (fst (example_run example_parameters)) = [DeleteFile ''/repo/changes/a.json'']
   \<and> readdirSync (example_host\<lparr>readdirSync := \<lambda>d. None\<rparr>) ''/repo/changes'' = None
   \<and> deleteChangeFiles (example_host\<lparr>readdirSync := \<lambda>d. None\<rparr>) example_parameters = ([], None)
   \<and> path_join example_host (commonFolder example_config) ''changes'' = ''/repo/common/changes''
   \<and> path_join example_host (cwd example_host) ''changes'' = ''/repo/changes''"
  using deleteChangeFiles_every_json_under_cwd [of example_host example_parameters example_config
      example_findChangeRequests example_sortChangeRequests example_intendedEdits]
    deleteChangeFiles_every_json_under_cwd [of "example_host\<lparr>readdirSync := \<lambda>d. None\<rparr>"
      example_parameters example_config
      example_findChangeRequests example_sortChangeRequests example_intendedEdits]
  by (simp add: example_defs git_defs execCommand_def truthy_def js_str_def indexOf_def Let_def)

lemma onExecute_no_delete_after_commit:
  "filter is_delete (dropWhile (\<lambda>e. \<not> is_commit e) (fst (onExecute h p cfg fc sc ie))) = []"
proof -
  have log: "\<And>s. \<not> is_commit (Log s)" "\<And>s. \<not> is_delete (Log s)" by simp_all
  note C = filter_git_Nil [of is_commit p "{''checkout'', ''add''}" h, OF log(1)]
  have c: "filter (\<lambda>e. \<not> \<not> is_commit e) (fst (gitCheckout h p br cb)) = []"
    "filter (\<lambda>e. \<not> \<not> is_commit e) (fst (gitAddChanges h p)) = []" for br cb
    by (simp, rule C; auto)+
  have u: "filter (\<lambda>e. \<not> \<not> is_commit e) (fst (updatePackages es b)) = []" for es b
    by (cases b) (auto simp: updatePackages_def filter_empty_conv)
  have d: "filter (\<lambda>e. \<not> \<not> is_commit e) (fst (deleteChangeFiles h p)) = []"
    by (simp add: filter_deleteChangeFiles_Nil)
  note D = filter_git_Nil [of is_delete p UNIV h, OF log(2)]
  have g: "filter is_delete (fst (gitCommit h p)) = []" "filter is_delete (fst (gitPush h p br)) = []" for br
    by (rule D; simp)+
  have rest: "filter is_delete (fst (seq (afterPublish h p cs))) = []" for cs
    by (rule filter_afterPublish_Nil) simp_all
  have tail: "filter is_delete (fst (then_do (gitCommit h p)
      (then_do (gitPush h p br) (then_do (publishChanges h p cfg cs) (seq (afterPublish h p cs)))))) = []" for br cs
    by (simp add: filter_then_do g rest filter_publishChanges_Nil [of is_delete] del: then_do.simps)
  have inner: "filter is_delete (dropWhile (\<lambda>e. \<not> is_commit e)
     (fst (then_do (gitCheckout h p br True)
                (then_do (updatePackages es (apply_value p))
                   (then_do (deleteChangeFiles h p)
                      (then_do (gitAddChanges h p)
                         (then_do (gitCommit h p)
                            (then_do (gitPush h p br)
                               (then_do (publishChanges h p cfg cs)
                                  (seq (afterPublish h p cs))))))))))) = []" for br es cs
    by (intro after_then_do_skip c u d filter_dropWhile_Nil tail)
  show ?thesis
    unfolding onExecute_shape Let_def
    apply (rule after_then_do_skip)
     apply simp
    apply (rule after_then_do_keep)
     apply (simp add: inner del: then_do.simps)
    apply simp
    done
qed

lemma onExecute_no_write_after_delete:
  "filter is_write (dropWhile (\<lambda>e. \<not> is_delete e) (fst (onExecute h p cfg fc sc ie))) = []"
proof -
  have log: "\<And>s. \<not> is_write (Log s)" "\<And>s. \<not> is_delete (Log s)" by simp_all
  note D = filter_git_Nil [of is_delete p UNIV h, OF log(2)]
  have c: "filter (\<lambda>e. \<not> \<not> is_delete e) (fst (gitCheckout h p br cb)) = []" for br cb
    by (simp, rule D; simp)
  have u: "filter (\<lambda>e. \<not> \<not> is_delete e) (fst (updatePackages es b)) = []" for es b
    by (cases b) (auto simp: updatePackages_def filter_empty_conv)
  note W = filter_git_Nil [of is_write p UNIV h, OF log(1)]
  have g: "filter is_write (fst (gitCommit h p)) = []" "filter is_write (fst (gitPush h p br)) = []"
    "filter is_write (fst (gitAddChanges h p)) = []" for br
    by (rule W; simp)+
  have rest: "filter is_write (fst (seq (afterPublish h p cs))) = []" for cs
    by (rule filter_afterPublish_Nil) simp_all
  have tail: "filter is_write (fst (then_do (deleteChangeFiles h p) (then_do (gitAddChanges h p) (then_do (gitCommit h p)
      (then_do (gitPush h p br) (then_do (publishChanges h p cfg cs) (seq (afterPublish h p cs)))))))) = []" for br cs
    by (simp add: filter_then_do g rest filter_publishChanges_Nil [of is_write]
        filter_deleteChangeFiles_Nil [of is_write] del: then_do.simps)
  have inner: "filter is_write (dropWhile (\<lambda>e. \<not> is_delete e)
     (fst (then_do (gitCheckout h p br True)
                (then_do (updatePackages es (apply_value p))
                   (then_do (deleteChangeFiles h p)
                      (then_do (gitAddChanges h p)
                         (then_do (gitCommit h p)
                            (then_do (gitPush h p br)
                               (then_do (publishChanges h p cfg cs)
                                  (seq (afterPublish h p cs))))))))))) = []" for br es cs
    by (intro after_then_do_skip c u filter_dropWhile_Nil tail)
  show ?thesis
    unfolding onExecute_shape Let_def
    apply (rule after_then_do_skip)
     apply simp
    apply (rule after_then_do_keep)
     apply (simp add: inner del: then_do.simps)
    apply simp
    done
qed

lemma split_on_free: "c \<notin> set w \<Longrightarrow> split_on c w = [w]"
  by (induction w) auto

lemma split_on_word: "c \<notin> set w \<Longrightarrow> split_on c (w @ c # rest) = w # split_on c rest"
  by (induction w) auto

lemma digit_char_no_space: "d < 10 \<Longrightarrow> digit_char d \<noteq> CHR '' ''"
proof -
  assume "d < 10"
  then have "digit_char d \<in> set ''0123456789''"
    unfolding digit_char_def by (intro nth_mem) simp
  then show ?thesis by auto
qed

lemma show_nat_no_space: "CHR '' '' \<notin> set (show_nat n)"
proof (induction n rule: show_nat.induct)
  case (1 n)
  show ?case
  proof (cases "n < 10")
    case True
    then show ?thesis
      using digit_char_no_space [of n] by (subst show_nat.simps) auto
  next
    case False
    with 1 show ?thesis
      using digit_char_no_space [of "n mod 10"] by (subst show_nat.simps) auto
  qed
qed

lemma tempBranch_no_space: "CHR '' '' \<notin> set (''publish-'' @ show_nat n)"
  using show_nat_no_space [of n] by simp

lemma checkout_new_args:
  "CHR '' '' \<notin> set b \<Longrightarrow> split_on CHR '' '' (''checkout -b '' @ b) = [''checkout'', ''-b'', b]"
  using split_on_word [of "CHR '' ''" "''checkout''" "''-b '' @ b"]
    split_on_word [of "CHR '' ''" "''-b''" b] split_on_free [of "CHR '' ''" b]
  by simp

lemma gitCheckout_new:
  "gitCheckout h p (Some (''publish-'' @ show_nat n)) True =
     execCommand h (truthy (targetBranch_value p)) ''git''
       [''checkout'', ''-b'', ''publish-'' @ show_nat n] (cwd h) None"
  using checkout_new_args [OF tempBranch_no_space [of n]]
  by (simp add: gitCheckout_def js_str_def)

lemma filter_deleteChangeFiles:
  assumes "\<And>s. \<not> P (Log s)" and "\<And>f. P (DeleteFile f)"
  shows "filter P (fst (deleteChangeFiles h p)) =
     (if truthy (targetBranch_value p) then map DeleteFile (changeFilePaths h) else [])"
proof -
  have a: "filter P (concat (map (\<lambda>f. [Log (l f), DeleteFile (d f)]) xs)) = map (\<lambda>f. DeleteFile (d f)) xs"
    for l d and xs :: "string list"
    using assms by (induction xs) auto
  have b: "filter P (concat (map (\<lambda>f. [Log (l f)]) xs)) = []"
    for l and xs :: "string list"
    using assms by (induction xs) auto
  show ?thesis
    using assms(1)
    by (simp add: deleteChangeFiles_def changeFilePaths_def Let_def a b split: option.splits)
qed

lemma onExecute_delete_stage_commit:
  "filter (\<lambda>e. is_delete e \<or> is_stage e \<or> is_commit e) (fst (onExecute h p cfg fc sc ie)) =
     (if sc (fc (projectsByName cfg) (path_join h (commonFolder cfg) ''changes'')) \<noteq> []
         \<and> truthy (targetBranch_value p)
         \<and> executeCommand h ''git'' [''checkout'', ''-b'', ''publish-'' @ show_nat (now h)] (cwd h) None
      then map DeleteFile (changeFilePaths h)
           @ [ExecuteCommand ''git'' [''add'', ''.''] (cwd h) None]
           @ (if executeCommand h ''git'' [''add'', ''.''] (cwd h) None
              then [ExecuteCommand ''git''
                      [''commit'', ''-m'', [dquote] @ ''Applying package updates.'' @ [dquote]] (cwd h) None]
              else [])
      else [])"
proof -
  let ?P = "\<lambda>e. is_delete e \<or> is_stage e \<or> is_commit e"
  have log: "\<And>s. \<not> ?P (Log s)" by simp
  note G = filter_git_Nil [of ?P p "{''checkout'', ''merge'', ''branch'', ''push'', ''pull''}" h, OF log]
  have g: "filter ?P (fst (gitCheckout h p br cb)) = []" "filter ?P (fst (gitPush h p br)) = []" for br cb
    by (rule G; auto)+
  have rest: "filter ?P (fst (seq (afterPublish h p cs))) = []" for cs
    by (rule filter_afterPublish_Nil) auto
  have u: "filter ?P (fst (updatePackages es b)) = []" for es b
    by (cases b) (auto simp: updatePackages_def filter_empty_conv)
  have pc: "filter ?P (fst (publishChanges h p cfg cs)) = []" for cs
    by (rule filter_publishChanges_Nil) auto
  have d: "filter ?P (fst (deleteChangeFiles h p)) =
     (if truthy (targetBranch_value p) then map DeleteFile (changeFilePaths h) else [])"
    by (rule filter_deleteChangeFiles) simp_all
  have a: "filter ?P (fst (gitAddChanges h p)) =
     (if truthy (targetBranch_value p) then [ExecuteCommand ''git'' [''add'', ''.''] (cwd h) None] else [])"
    "snd (gitAddChanges h p) = None \<longleftrightarrow>
       (truthy (targetBranch_value p) \<longrightarrow> executeCommand h ''git'' [''add'', ''.''] (cwd h) None)"
    by (simp_all add: gitAddChanges_def execCommand_def Let_def)
  have c: "filter ?P (fst (gitCommit h p)) =
     (if truthy (targetBranch_value p)
      then [ExecuteCommand ''git'' [''commit'', ''-m'', [dquote] @ ''Applying package updates.'' @ [dquote]] (cwd h) None]
      else [])"
    by (simp add: gitCommit_def execCommand_def Let_def)
  define T where "T = ''publish-'' @ show_nat (now h)"
  have k: "snd (gitCheckout h p (Some T) True) = None \<longleftrightarrow>
       (truthy (targetBranch_value p) \<longrightarrow>
          executeCommand h ''git'' [''checkout'', ''-b'', T] (cwd h) None)"
    unfolding T_def gitCheckout_new by (simp add: execCommand_def Let_def)
  show ?thesis
    unfolding onExecute_shape Let_def T_def [symmetric]
    by (simp add: filter_then_do g rest u pc d a c k updatePackages_ok deleteChangeFiles_ok
        del: then_do.simps)
qed

text \<open>
  Claim C3, as the code has it. \<open>onExecute\<close> deletes the change files after
  \<open>updatePackages\<close> and before it stages and commits. Of every run, the deletions, the
  staging (\<open>git add\<close>) and the commit are, in this order: the deletion of each entry of
  \<open>changes\<close> under the working directory whose name contains \<open>.json\<close>, then
  \<open>git add .\<close>, then \<open>git commit\<close> when \<open>git add\<close> has succeeded; there is none of them
  when there is no change, no target branch, or when the first checkout fails. No manifest
  is written once a change file has been deleted, no change file is deleted once
  \<open>git commit\<close> has been issued, and none at all without the target-branch parameter.
\<close>

theorem change_files_deleted_before_commit:
  "(let tr = fst (onExecute h p rushConfig findChangeRequests sortChangeRequests intendedEdits);
        orderedChanges = sortChangeRequests (findChangeRequests (projectsByName rushConfig)
          (path_join h (commonFolder rushConfig) ''changes''));
        tempBranch = ''publish-'' @ show_nat (now h)
    in filter (\<lambda>e. is_delete e \<or> is_stage e \<or> is_commit e) tr =
         (if orderedChanges \<noteq> [] \<and> truthy (targetBranch_value p)
             \<and> executeCommand h ''git'' [''checkout'', ''-b'', tempBranch] (cwd h) None
          then map DeleteFile (changeFilePaths h)
               @ [ExecuteCommand ''git'' [''add'', ''.''] (cwd h) None]
               @ (if executeCommand h ''git'' [''add'', ''.''] (cwd h) None
                  then [ExecuteCommand ''git''
                          [''commit'', ''-m'', [dquote] @ ''Applying package updates.'' @ [dquote]]
                          (cwd h) None]
                  else [])
          else [])
       \<and> filter is_write (dropWhile (\<lambda>e. \<not> is_delete e) tr) = []
       \<and> filter is_delete (dropWhile (\<lambda>e. \<not> is_commit e) tr) = []
       \<and> (\<not> truthy (targetBranch_value p) \<longrightarrow> filter is_delete tr = []))"
  unfolding Let_def
  by (simp only: onExecute_delete_stage_commit onExecute_no_delete_after_commit
      onExecute_no_write_after_delete onExecute_deletes deleteChangeFiles_deletes)
     simp

lemmas common_defs = example_common_host_def example_crash_host_def example_readChangeFiles_def
  example_planOfFiles_def example_editsOfFiles_def example_host_def example_parameters_def
  example_dry_parameters_def example_config_def example_plan_def example_edits_def

theorem change_files_deleted_before_commit_witness:
  "\<not> truthy (targetBranch_value example_dry_parameters)
   \<and> filter is_delete (fst (example_run example_dry_parameters)) = []
   \<and> filter (\<lambda>e. is_delete e \<or> is_stage e \<or> is_commit e) (fst (example_run example_parameters))
      = [DeleteFile ''/repo/changes/a.json'',
         ExecuteCommand ''git'' [''add'', ''.''] ''/repo'' None,
         ExecuteCommand ''git'' [''commit'', ''-m'', dquote # ''Applying package updates.'' @ [dquote]]
           ''/repo'' None]
   \<and> filter is_write (dropWhile (\<lambda>e. \<not> is_delete e) (fst (example_run example_parameters))) = []"
  using change_files_deleted_before_commit [of example_host example_dry_parameters example_config
      example_findChangeRequests example_sortChangeRequests example_intendedEdits]
    change_files_deleted_before_commit [of example_host example_parameters example_config
      example_findChangeRequests example_sortChangeRequests example_intendedEdits]
  by (simp add: example_defs truthy_def changeFilePaths_def indexOf_def Let_def)

text \<open>
  A run in the common folder, where the change files that are read are those that
  \<open>_deleteChangeFiles\<close> lists: the change file that was consumed is deleted while
  \<open>git commit\<close> has not yet run; and on a host where \<open>git add\<close> fails the run ends with
  the file deleted and nothing committed.
\<close>

theorem change_file_deleted_before_commit_counterexample:
  "example_readChangeFiles (projectsByName example_config)
       (path_join example_common_host (commonFolder example_config) ''changes'')
     = [''/repo/common/changes/b_patch.json'']
   \<and> filter is_delete (untilCommit (fst (onExecute example_common_host example_parameters example_config
        example_readChangeFiles example_planOfFiles example_editsOfFiles)))
     = [DeleteFile ''/repo/common/changes/b_patch.json'']
   \<and> filter is_commit (fst (onExecute example_common_host example_parameters example_config
        example_readChangeFiles example_planOfFiles example_editsOfFiles))
     = [ExecuteCommand ''git'' [''commit'', ''-m'', dquote # ''Applying package updates.'' @ [dquote]]
          ''/repo/common'' None]
   \<and> filter is_delete (fst (onExecute example_crash_host example_parameters example_config
        example_readChangeFiles example_planOfFiles example_editsOfFiles))
     = [DeleteFile ''/repo/common/changes/b_patch.json'']
   \<and> filter is_commit (fst (onExecute example_crash_host example_parameters example_config
        example_readChangeFiles example_planOfFiles example_editsOfFiles)) = []
   \<and> snd (onExecute example_crash_host example_parameters example_config
        example_readChangeFiles example_planOfFiles example_editsOfFiles)
     = Some (CommandFailed ''git'' [''add'', ''.''])"
  by (simp add: common_defs run_defs untilCommit_def)

lemma published_append: "published (xs @ ys) = published xs @ published ys"
  by (simp add: published_def map_filter_def)

lemma published_then_do:
  "published (fst (then_do a b)) = published (fst a) @ (if snd a = None then published (fst b) else [])"
  by (simp add: then_do_events published_append) (simp add: published_def map_filter_simps)

lemma published_Nil: "filter is_publish tr = [] \<Longrightarrow> published tr = []"
proof (induction tr)
  case Nil
  then show ?case by (simp add: published_def map_filter_simps)
next
  case (Cons e tr)
  then show ?case
    by (cases e) (auto simp: published_def map_filter_simps split: if_splits)
qed

lemma published_execCommand:
  "published (fst (execCommand h b c (''publish'' # a) wd env)) = (if b then [wd] else [])"
  by (simp add: execCommand_def Let_def published_def map_filter_simps)

lemma published_publishChanges_dry:
  "\<not> publish_value p \<Longrightarrow> published (fst (publishChanges h p cfg cs)) = []"
  by (rule published_Nil, rule filter_publishChanges_Nil) simp_all

lemma published_publishChanges:
  assumes "publish_value p"
  shows "prefix (map Some (published (fst (publishChanges h p cfg cs)))) (foldersToPublish cfg cs)
    \<and> (snd (publishChanges h p cfg cs) = None \<longrightarrow>
         map Some (published (fst (publishChanges h p cfg cs))) = foldersToPublish cfg cs)"
proof (induction cs)
  case Nil
  then show ?case by (simp add: foldersToPublish_def published_def map_filter_simps)
next
  case (Cons c cs)
  show ?case
  proof (cases "aboveDependency c")
    case False
    with Cons show ?thesis
      by (simp add: foldersToPublish_def aboveDependency_def)
  next
    case True
    show ?thesis
    proof (cases "projectsByName cfg (packageName c)")
      case None
      with True show ?thesis
        by (simp add: foldersToPublish_def aboveDependency_def published_def map_filter_simps)
    next
      case (Some project)
      have pub: "published (fst (npmPublish h p cfg c wd)) = [wd]" for wd
        using assms by (simp add: npmPublish_def Let_def published_execCommand)
      from True Some Cons show ?thesis
        by (auto simp: foldersToPublish_def aboveDependency_def published_then_do pub then_do_ok
            simp del: then_do.simps)
    qed
  qed
qed

lemma published_onExecute:
  "published (fst (onExecute h p cfg fc sc ie)) =
     (let cs = sc (fc (projectsByName cfg) (path_join h (commonFolder cfg) ''changes''));
          tempBranch = Some (''publish-'' @ show_nat (now h))
      in if cs \<noteq> [] \<and> snd (gitCheckout h p tempBranch True) = None \<and> snd (gitAddChanges h p) = None
            \<and> snd (gitCommit h p) = None \<and> snd (gitPush h p tempBranch) = None
         then published (fst (publishChanges h p cfg cs)) else [])"
proof -
  have log: "\<And>s. \<not> is_publish (Log s)" by simp
  note G = filter_git_Nil [of is_publish p "{''checkout'', ''add'', ''commit'', ''push''}" h, OF log]
  have g: "published (fst (gitCheckout h p br cb)) = []" "published (fst (gitAddChanges h p)) = []"
    "published (fst (gitCommit h p)) = []" "published (fst (gitPush h p br)) = []" for br cb
    by (rule published_Nil, rule G; auto)+
  have rest: "published (fst (seq (afterPublish h p cs))) = []" for cs
    by (rule published_Nil, rule filter_afterPublish_Nil) auto
  have u: "published (fst (updatePackages es b)) = []" for es b
    by (rule published_Nil) (cases b; auto simp: updatePackages_def filter_empty_conv)
  have d: "published (fst (deleteChangeFiles h p)) = []"
    by (rule published_Nil, rule filter_deleteChangeFiles_Nil) simp_all
  have e: "published [Log s] = []" "published [] = []" for s
    by (simp_all add: published_def map_filter_simps)
  show ?thesis
    unfolding onExecute_shape Let_def
    by (simp add: published_then_do g rest u d e updatePackages_ok deleteChangeFiles_ok
        del: then_do.simps)
qed

lemma onExecute_ok:
  assumes "snd (onExecute h p cfg fc sc ie) = None"
    and "sc (fc (projectsByName cfg) (path_join h (commonFolder cfg) ''changes'')) \<noteq> []"
  shows "snd (gitCheckout h p (Some (''publish-'' @ show_nat (now h))) True) = None
    \<and> snd (gitAddChanges h p) = None \<and> snd (gitCommit h p) = None
    \<and> snd (gitPush h p (Some (''publish-'' @ show_nat (now h)))) = None
    \<and> snd (publishChanges h p cfg (sc (fc (projectsByName cfg) (path_join h (commonFolder cfg) ''changes'')))) = None"
  using assms unfolding onExecute_shape Let_def
  by (simp add: then_do_ok del: then_do.simps split: if_splits)

text \<open>
  Claim C4, as the code has it. The folders in which \<open>onExecute\<close> runs \<open>npm publish\<close>
  are, in the order of the plan, those of the changes whose type is above \<open>dependency\<close>
  (\<open>patch\<close>, \<open>minor\<close>, \<open>major\<close>): every run publishes an initial segment of
  them, a run that completes with the publish flag set publishes all of them, and a run
  with the flag off publishes none. A change of type \<open>dependency\<close> is never published.
\<close>

theorem npm_publish_only_above_dependency:
  "(let orderedChanges = sortChangeRequests (findChangeRequests (projectsByName rushConfig)
          (path_join h (commonFolder rushConfig) ''changes''));
        run = onExecute h p rushConfig findChangeRequests sortChangeRequests intendedEdits
    in prefix (map Some (published (fst run))) (foldersToPublish rushConfig orderedChanges)
       \<and> (publish_value p \<and> snd run = None \<longrightarrow>
            map Some (published (fst run)) = foldersToPublish rushConfig orderedChanges)
       \<and> (\<not> publish_value p \<longrightarrow> published (fst run) = []))"
proof (cases "publish_value p")
  case False
  then show ?thesis
    by (simp add: Let_def published_onExecute published_publishChanges_dry)
next
  case True
  define cs where "cs = sortChangeRequests (findChangeRequests (projectsByName rushConfig)
          (path_join h (commonFolder rushConfig) ''changes''))"
  note L = published_publishChanges [OF True, of h rushConfig cs]
  show ?thesis
  proof (cases "cs = []")
    case True
    then show ?thesis
      by (simp add: Let_def published_onExecute cs_def [symmetric] foldersToPublish_def)
  next
    case False
    have "map Some (published (fst (onExecute h p rushConfig findChangeRequests sortChangeRequests intendedEdits)))
        = foldersToPublish rushConfig cs"
      if "snd (onExecute h p rushConfig findChangeRequests sortChangeRequests intendedEdits) = None"
      using onExecute_ok [OF that] False L
      by (simp add: published_onExecute Let_def cs_def [symmetric])
    moreover have "prefix (map Some (published (fst (onExecute h p rushConfig findChangeRequests sortChangeRequests intendedEdits))))
        (foldersToPublish rushConfig cs)"
      using L by (simp add: published_onExecute Let_def cs_def [symmetric])
    ultimately show ?thesis
      using True by (simp add: Let_def cs_def [symmetric])
  qed
qed

theorem npm_publish_only_above_dependency_witness:
  "publish_value example_parameters \<and> snd (example_run example_parameters) = None
   \<and> published (fst (example_run example_parameters)) = [''/repo/b'']
   \<and> \<not> publish_value example_dry_parameters
   \<and> published (fst (example_run example_dry_parameters)) = []"
  using npm_publish_only_above_dependency [where h = example_host and rushConfig = example_config
      and findChangeRequests = example_findChangeRequests
      and sortChangeRequests = example_sortChangeRequests
      and intendedEdits = example_intendedEdits and p = example_parameters]
    npm_publish_only_above_dependency [where h = example_host and rushConfig = example_config
      and findChangeRequests = example_findChangeRequests
      and sortChangeRequests = example_sortChangeRequests
      and intendedEdits = example_intendedEdits and p = example_dry_parameters]
  by (simp add: example_defs run_defs foldersToPublish_def aboveDependency_def published_def
      map_filter_simps)

text \<open>
  In the example plan package \<open>A\<close> has the change type \<open>dependency\<close>; the run completes
  with every flag set, and only \<open>B\<close> is published and tagged.
\<close>

theorem dependency_bump_not_published_counterexample:
  "example_plan ! 1 = \<lparr>packageName = ''A'', changeType = dependency, newVersion = ''1.0.1''\<rparr>
   \<and> snd (example_run example_parameters) = None
   \<and> published (fst (example_run example_parameters)) = [''/repo/b'']
   \<and> map_option projectFolder (projectsByName example_config ''A'') = Some ''/repo/a''
   \<and> filter is_tag (fst (example_run example_parameters))
      = [ExecuteCommand ''git'' [''tag'', ''-a'', ''B_v1.0.1'', ''-m'', dquote # ''B v1.0.1'' @ [dquote]]
           ''/repo'' None]"
  by (simp add: example_defs run_defs published_def map_filter_simps)

lemma aboveDependency_fold: "Suc 0 < changeTypeValue (changeType c) \<longleftrightarrow> aboveDependency c"
  by (simp add: aboveDependency_def)

lemma git_args:
  assumes "CHR '' '' \<notin> set T"
  shows "split_on CHR '' '' (''checkout -b '' @ T) = [''checkout'', ''-b'', T]"
    and "split_on CHR '' '' (''checkout '' @ B) = ''checkout'' # split_on CHR '' '' B"
    and "split_on CHR '' '' (''pull origin '' @ B) = ''pull'' # ''origin'' # split_on CHR '' '' B"
    and "split_on CHR '' '' (''merge '' @ T @ '' --no-edit'') = [''merge'', T, ''--no-edit'']"
    and "split_on CHR '' '' (''branch -d '' @ T) = [''branch'', ''-d'', T]"
    and "split_on CHR '' '' (''push origin --delete '' @ T) = [''push'', ''origin'', ''--delete'', T]"
proof -
  note W = split_on_word [of "CHR '' ''"]
  show "split_on CHR '' '' (''checkout -b '' @ T) = [''checkout'', ''-b'', T]"
    using W [of "''checkout''" "''-b '' @ T"] W [of "''-b''" T] split_on_free [OF assms] by simp
  show "split_on CHR '' '' (''checkout '' @ B) = ''checkout'' # split_on CHR '' '' B"
    using W [of "''checkout''" B] by simp
  show "split_on CHR '' '' (''pull origin '' @ B) = ''pull'' # ''origin'' # split_on CHR '' '' B"
    using W [of "''pull''" "''origin '' @ B"] W [of "''origin''" B] by simp
  show "split_on CHR '' '' (''merge '' @ T @ '' --no-edit'') = [''merge'', T, ''--no-edit'']"
    using W [of "''merge''" "T @ '' --no-edit''"] W [OF assms, of "''--no-edit''"]
      split_on_free [of "CHR '' ''" "''--no-edit''"] by simp
  show "split_on CHR '' '' (''branch -d '' @ T) = [''branch'', ''-d'', T]"
    using W [of "''branch''" "''-d '' @ T"] W [of "''-d''" T] split_on_free [OF assms] by simp
  show "split_on CHR '' '' (''push origin --delete '' @ T) = [''push'', ''origin'', ''--delete'', T]"
    using W [of "''push''" "''origin --delete '' @ T"] W [of "''origin''" "''--delete '' @ T"]
      W [of "''--delete''" T] split_on_free [OF assms] by simp
qed

lemma git_commands:
  assumes "CHR '' '' \<notin> set T"
  shows "gitCheckout h p (Some T) True =
      execCommand h (truthy (targetBranch_value p)) ''git'' [''checkout'', ''-b'', T] (cwd h) None"
    and "gitCheckout h p (targetBranch_value p) False =
      execCommand h (truthy (targetBranch_value p)) ''git''
        (''checkout'' # split_on CHR '' '' (js_str (targetBranch_value p))) (cwd h) None"
    and "gitPull h p =
      execCommand h (truthy (targetBranch_value p)) ''git''
        (''pull'' # ''origin'' # split_on CHR '' '' (js_str (targetBranch_value p))) (cwd h) None"
    and "gitMerge h p T =
      execCommand h (truthy (targetBranch_value p)) ''git'' [''merge'', T, ''--no-edit''] (cwd h) None"
    and "gitDeleteBranch h p T =
      then_do
        (execCommand h (truthy (targetBranch_value p)) ''git'' [''branch'', ''-d'', T] (cwd h) None)
        (execCommand h (truthy (targetBranch_value p)) ''git'' [''push'', ''origin'', ''--delete'', T]
           (cwd h) None)"
  unfolding git_defs Let_def
  using git_args [OF assms] by (simp_all add: js_str_def del: split_on.simps then_do.simps)

lemma then_do_None: "snd (then_do a b) = None \<longleftrightarrow> snd a = None \<and> snd b = None"
  by (cases a; cases "snd a") auto

lemma execCommand_performed:
  "fst (execCommand h b c a wd env) = performedAs h b (c, a, wd, env)"
  by (simp add: execCommand_def performedAs_def commandText_def executedAs_def Let_def)

lemma publishChanges_performed:
  assumes "snd (publishChanges h p cfg cs) = None"
  shows "fst (publishChanges h p cfg cs) =
     concat (map (\<lambda>change. performedAs h (publish_value p) (npmPublishCommand h p cfg change))
               (filter aboveDependency cs))"
  using assms
proof (induction cs)
  case Nil
  then show ?case by simp
next
  case (Cons c cs)
  show ?case
  proof (cases "aboveDependency c")
    case False
    with Cons show ?thesis
      by (simp add: aboveDependency_fold)
  next
    case True
    from Cons.prems True obtain project where pr: "projectsByName cfg (packageName c) = Some project"
      by (cases "projectsByName cfg (packageName c)") (auto simp: aboveDependency_fold)
    from Cons.prems True pr have ok: "snd (npmPublish h p cfg c (projectFolder project)) = None"
      "snd (publishChanges h p cfg cs) = None"
      by (auto simp: aboveDependency_fold then_do_ok simp del: then_do.simps split: if_splits)
    have one: "fst (npmPublish h p cfg c (projectFolder project)) =
        performedAs h (publish_value p) (npmPublishCommand h p cfg c)"
      using pr by (simp add: npmPublish_def npmPublishCommand_def Let_def execCommand_performed getEnvArgs_def)
    from True pr ok Cons.IH [OF ok(2)] one show ?thesis
      by (simp add: aboveDependency_fold then_do_events del: then_do.simps)
  qed
qed

lemma gitAddTags_performed:
  assumes "snd (gitAddTags h p cs) = None"
  shows "fst (gitAddTags h p cs) =
     concat (map (\<lambda>change. performedAs h
                 (truthy (targetBranch_value p) \<and> publish_value p \<and> \<not> truthy (registryUrl_value p))
                 (gitTagCommand h change))
               (filter aboveDependency cs))"
  using assms
proof (induction cs)
  case Nil
  then show ?case by simp
next
  case (Cons c cs)
  from Cons.prems have ok: "snd (gitAddTags h p cs) = None"
    by (auto simp: then_do_ok simp del: then_do.simps split: if_splits)
  from Cons.prems Cons.IH [OF ok] show ?case
    by (auto simp: aboveDependency_fold gitTagCommand_def Let_def then_do_events execCommand_performed
        then_do_ok simp del: then_do.simps split: if_splits)
qed

lemma deleteChangeFiles_performed:
  "fst (deleteChangeFiles h p) =
     (if changeFilePaths h \<noteq> [] then
        Log (EOL h @ ''* '' @ (if truthy (targetBranch_value p) then ''DELETING:'' else ''DRYRUN: Deleting'')
             @ '' '' @ show_nat (length (changeFilePaths h)) @ '' change file(s).'')
        # concat (map (\<lambda>filePath. Log ('' - '' @ filePath)
                         # (if truthy (targetBranch_value p) then [DeleteFile filePath] else []))
                    (changeFilePaths h))
      else [])"
  by (simp add: deleteChangeFiles_def changeFilePaths_def Let_def comp_def split: option.splits)

lemma onExecute_trace:
  assumes ok: "snd (onExecute h p cfg fc sc ie) = None"
    and some: "sc (fc (projectsByName cfg) (path_join h (commonFolder cfg) ''changes'')) \<noteq> []"
  shows "fst (onExecute h p cfg fc sc ie) =
     (let allChanges = fc (projectsByName cfg) (path_join h (commonFolder cfg) ''changes'');
          orderedChanges = sc allChanges;
          tempBranch = ''publish-'' @ show_nat (now h);
          targetBranch = js_str (targetBranch_value p);
          git = truthy (targetBranch_value p);
          tag = (truthy (targetBranch_value p) \<and> publish_value p \<and> \<not> truthy (registryUrl_value p))
      in [Log (''Starting '' @ [dquote] @ ''rush publish'' @ [dquote] @ '' '' @ EOL h)]
          @ performedAs h git (''git'', [''checkout'', ''-b'', tempBranch], cwd h, None)
          @ fst (updatePackages (ie allChanges) (apply_value p))
          @ (if changeFilePaths h \<noteq> [] then
               Log (EOL h @ ''* '' @ (if git then ''DELETING:'' else ''DRYRUN: Deleting'')
                    @ '' '' @ show_nat (length (changeFilePaths h)) @ '' change file(s).'')
               # concat (map (\<lambda>filePath. Log ('' - '' @ filePath)
                                # (if git then [DeleteFile filePath] else []))
                           (changeFilePaths h))
             else [])
          @ concat (map (performedAs h git)
              [(''git'', [''add'', ''.''], cwd h, None),
               (''git'', [''commit'', ''-m'', [dquote] @ ''Applying package updates.'' @ [dquote]],
                cwd h, None),
               (''git'', [''push'', ''origin'', ''HEAD:'' @ tempBranch, ''--follow-tags'', ''--verbose''],
                cwd h, None)])
          @ concat (map (\<lambda>change. performedAs h (publish_value p) (npmPublishCommand h p cfg change))
              (filter aboveDependency orderedChanges))
          @ concat (map (\<lambda>change. performedAs h tag (gitTagCommand h change))
              (filter aboveDependency orderedChanges))
          @ concat (map (performedAs h git)
              [(''git'', [''push'', ''origin'', ''HEAD:'' @ tempBranch, ''--follow-tags'', ''--verbose''],
                cwd h, None),
               (''git'', ''checkout'' # split_on CHR '' '' targetBranch, cwd h, None),
               (''git'', ''pull'' # ''origin'' # split_on CHR '' '' targetBranch, cwd h, None),
               (''git'', [''merge'', tempBranch, ''--no-edit''], cwd h, None),
               (''git'', [''push'', ''origin'', ''HEAD:'' @ targetBranch, ''--follow-tags'', ''--verbose''],
                cwd h, None),
               (''git'', [''branch'', ''-d'', tempBranch], cwd h, None),
               (''git'', [''push'', ''origin'', ''--delete'', tempBranch], cwd h, None)])
          @ [Log (EOL h @ green h ''Rush publish finished successfully.'')])"
proof -
  define T where "T = ''publish-'' @ show_nat (now h)"
  define cs where "cs = sc (fc (projectsByName cfg) (path_join h (commonFolder cfg) ''changes''))"
  have T: "CHR '' '' \<notin> set T"
    unfolding T_def by (rule tempBranch_no_space)
  note G = git_commands [OF T, of h p]
  from ok some have oks: "snd (publishChanges h p cfg cs) = None" "snd (gitAddTags h p cs) = None"
    unfolding onExecute_shape afterPublish_def Let_def cs_def [symmetric]
    by (simp_all add: then_do_None del: then_do.simps)
  from ok some have all: "snd (then_do (gitCheckout h p (Some T) True)
                (then_do (updatePackages (ie (fc (projectsByName cfg) (path_join h (commonFolder cfg) ''changes''))) (apply_value p))
                   (then_do (deleteChangeFiles h p)
                      (then_do (gitAddChanges h p)
                         (then_do (gitCommit h p)
                            (then_do (gitPush h p (Some T))
                               (then_do (publishChanges h p cfg cs)
                                  (seq (afterPublish h p cs))))))))) = None"
    unfolding onExecute_shape Let_def cs_def [symmetric] T_def [symmetric]
    by (simp add: then_do_None del: then_do.simps)
  show ?thesis
    using all
    unfolding onExecute_shape afterPublish_def Let_def cs_def [symmetric] T_def [symmetric] G
    using some
    by (simp add: then_do_None then_do_events execCommand_performed gitAddChanges_def gitCommit_def
        gitPush_def publishChanges_performed [OF oks(1)] gitAddTags_performed [OF oks(2)]
        deleteChangeFiles_performed js_str_def cs_def [symmetric]
        del: then_do.simps)
qed

lemma publishChanges_dry_ok:
  assumes "\<not> publish_value p"
    and "\<forall>change\<in>set (filter aboveDependency cs). projectsByName cfg (packageName change) \<noteq> None"
  shows "snd (publishChanges h p cfg cs) = None"
  using assms(2)
proof (induction cs)
  case Nil
  then show ?case by simp
next
  case (Cons c cs)
  then show ?case
    using assms(1)
    by (auto simp: aboveDependency_fold npmPublish_def Let_def execCommand_def then_do_ok
        simp del: then_do.simps)
qed

lemma gitAddTags_dry_ok:
  assumes "\<not> publish_value p"
  shows "snd (gitAddTags h p cs) = None"
  using assms
  by (induction cs) (auto simp: Let_def execCommand_def then_do_ok simp del: then_do.simps)

lemma onExecute_dry_ok:
  assumes off: "\<not> truthy (targetBranch_value p)" "\<not> publish_value p"
    and known: "\<forall>change\<in>set (filter aboveDependency
        (sc (fc (projectsByName cfg) (path_join h (commonFolder cfg) ''changes'')))).
          projectsByName cfg (packageName change) \<noteq> None"
  shows "snd (onExecute h p cfg fc sc ie) = None"
  unfolding onExecute_shape afterPublish_def Let_def
  using off
  by (simp add: then_do_None git_defs execCommand_def Let_def publishChanges_dry_ok [OF off(2) known]
      gitAddTags_dry_ok [OF off(2)] deleteChangeFiles_ok updatePackages_ok del: then_do.simps)

lemma onExecute_manifest:
  "filter is_manifest (fst (onExecute h p cfg fc sc ie)) =
     (if sc (fc (projectsByName cfg) (path_join h (commonFolder cfg) ''changes'')) \<noteq> []
         \<and> snd (gitCheckout h p (Some (''publish-'' @ show_nat (now h))) True) = None
      then filter is_manifest
             (fst (updatePackages (ie (fc (projectsByName cfg) (path_join h (commonFolder cfg) ''changes'')))
                (apply_value p)))
      else [])"
proof -
  have log: "\<And>s. \<not> is_manifest (Log s)" by simp
  note G = filter_git_Nil [of is_manifest p UNIV h, OF log]
  have g: "filter is_manifest (fst (gitCheckout h p br cb)) = []"
    "filter is_manifest (fst (gitAddChanges h p)) = []"
    "filter is_manifest (fst (gitCommit h p)) = []" "filter is_manifest (fst (gitPush h p br)) = []" for br cb
    by (rule G; simp)+
  have rest: "filter is_manifest (fst (seq (afterPublish h p cs))) = []" for cs
    by (rule filter_afterPublish_Nil) simp_all
  show ?thesis
    unfolding onExecute_shape Let_def
    by (simp add: filter_then_do g rest updatePackages_ok deleteChangeFiles_ok
        filter_deleteChangeFiles_Nil [of is_manifest]
        filter_publishChanges_Nil [of is_manifest] del: then_do.simps)
qed

text \<open>
  Claim C8, as the code has it. In a run of \<open>onExecute\<close> that completes, each command is
  either executed, after a line \<open>EXECUTING\<close>, or only reported by a line \<open>DRYRUN\<close>,
  according to its flag: the target branch for the git commands and the deletion of the
  change files, \<open>--publish\<close> for \<open>npm publish\<close>, both and no registry for \<open>git tag\<close>. The
  commands, their order and the files listed are the same either way. They are an
  expression of the parameters that holds the value of the target-branch parameter, so
  that a run without target branch prints \<open>undefined\<close> where a run with a target branch
  has its name. A run without target branch and without \<open>--publish\<close> completes whenever
  the packages to publish are known. Each flag alone removes its operations from every
  run: no deletion and no git command without target branch, no \<open>npm publish\<close> and no
  \<open>git tag\<close> without \<open>--publish\<close>. The manifest edits are made by \<open>updatePackages\<close>, to
  which \<open>onExecute\<close> hands the apply flag; and \<open>_execCommand\<close> prints the same text
  whether or not it executes the command.
\<close>

theorem flags_off_operations_reported:
  "(let allChanges = findChangeRequests (projectsByName rushConfig)
          (path_join h (commonFolder rushConfig) ''changes'');
        orderedChanges = sortChangeRequests allChanges;
        run = onExecute h p rushConfig findChangeRequests sortChangeRequests intendedEdits;
        tempBranch = ''publish-'' @ show_nat (now h);
        targetBranch = js_str (targetBranch_value p);
        git = truthy (targetBranch_value p);
        tag = (truthy (targetBranch_value p) \<and> publish_value p \<and> \<not> truthy (registryUrl_value p))
    in (orderedChanges \<noteq> [] \<and> snd run = None \<longrightarrow>
        fst run =
          [Log (''Starting '' @ [dquote] @ ''rush publish'' @ [dquote] @ '' '' @ EOL h)]
          @ performedAs h git (''git'', [''checkout'', ''-b'', tempBranch], cwd h, None)
          @ fst (updatePackages (intendedEdits allChanges) (apply_value p))
          @ (if changeFilePaths h \<noteq> [] then
               Log (EOL h @ ''* '' @ (if git then ''DELETING:'' else ''DRYRUN: Deleting'')
                    @ '' '' @ show_nat (length (changeFilePaths h)) @ '' change file(s).'')
               # concat (map (\<lambda>filePath. Log ('' - '' @ filePath)
                                # (if git then [DeleteFile filePath] else []))
                           (changeFilePaths h))
             else [])
          @ concat (map (performedAs h git)
              [(''git'', [''add'', ''.''], cwd h, None),
               (''git'', [''commit'', ''-m'', [dquote] @ ''Applying package updates.'' @ [dquote]],
                cwd h, None),
               (''git'', [''push'', ''origin'', ''HEAD:'' @ tempBranch, ''--follow-tags'', ''--verbose''],
                cwd h, None)])
          @ concat (map (\<lambda>change. performedAs h (publish_value p)
                                    (npmPublishCommand h p rushConfig change))
              (filter aboveDependency orderedChanges))
          @ concat (map (\<lambda>change. performedAs h tag (gitTagCommand h change))
              (filter aboveDependency orderedChanges))
          @ concat (map (performedAs h git)
              [(''git'', [''push'', ''origin'', ''HEAD:'' @ tempBranch, ''--follow-tags'', ''--verbose''],
                cwd h, None),
               (''git'', ''checkout'' # split_on CHR '' '' targetBranch, cwd h, None),
               (''git'', ''pull'' # ''origin'' # split_on CHR '' '' targetBranch, cwd h, None),
               (''git'', [''merge'', tempBranch, ''--no-edit''], cwd h, None),
               (''git'', [''push'', ''origin'', ''HEAD:'' @ targetBranch, ''--follow-tags'', ''--verbose''],
                cwd h, None),
               (''git'', [''branch'', ''-d'', tempBranch], cwd h, None),
               (''git'', [''push'', ''origin'', ''--delete'', tempBranch], cwd h, None)])
          @ [Log (EOL h @ green h ''Rush publish finished successfully.'')])
       \<and> (\<not> git \<and> \<not> publish_value p
            \<and> (\<forall>change\<in>set (filter aboveDependency orderedChanges).
                  projectsByName rushConfig (packageName change) \<noteq> None) \<longrightarrow>
          snd run = None)
       \<and> (\<not> git \<longrightarrow> filter is_delete (fst run) = [] \<and> filter is_git (fst run) = [])
       \<and> (\<not> publish_value p \<longrightarrow>
            filter is_publish (fst run) = [] \<and> filter is_tag (fst run) = [])
       \<and> filter is_manifest (fst run) =
            (if orderedChanges \<noteq> [] \<and> snd (gitCheckout h p (Some tempBranch) True) = None
             then filter is_manifest (fst (updatePackages (intendedEdits allChanges) (apply_value p)))
             else [])
       \<and> fst (execCommand h shouldExecute command args workingDirectory env) =
            Log (EOL h @ ''* '' @ (if shouldExecute then ''EXECUTING'' else ''DRYRUN'') @ '': ''
                 @ command @ '' '' @ join_with '' '' args @ '' ''
                 @ (if path_relative h (cwd h) workingDirectory \<noteq> []
                    then ''('' @ path_relative h (cwd h) workingDirectory @ '')'' else []))
            # (if shouldExecute then [ExecuteCommand command args workingDirectory env] else []))"
proof -
  let ?run = "onExecute h p rushConfig findChangeRequests sortChangeRequests intendedEdits"
  have off: "filter is_delete (fst ?run) = [] \<and> filter is_git (fst ?run) = []"
    if "\<not> truthy (targetBranch_value p)"
    using that by (intro conjI filter_onExecute_Nil) simp_all
  have pub: "filter is_publish (fst ?run) = [] \<and> filter is_tag (fst ?run) = []"
    if "\<not> publish_value p"
    using that by (intro conjI filter_onExecute_Nil) auto
  have ex: "fst (execCommand h shouldExecute command args workingDirectory env) =
            Log (EOL h @ ''* '' @ (if shouldExecute then ''EXECUTING'' else ''DRYRUN'') @ '': ''
                 @ command @ '' '' @ join_with '' '' args @ '' ''
                 @ (if path_relative h (cwd h) workingDirectory \<noteq> []
                    then ''('' @ path_relative h (cwd h) workingDirectory @ '')'' else []))
            # (if shouldExecute then [ExecuteCommand command args workingDirectory env] else [])"
    by (simp add: execCommand_def Let_def)
  show ?thesis
    unfolding Let_def
    apply (intro conjI impI)
    subgoal by (simp add: onExecute_trace [unfolded Let_def])
    subgoal by (rule onExecute_dry_ok) simp_all
    subgoal using off by simp
    subgoal using off by simp
    subgoal using pub by simp
    subgoal using pub by simp
    subgoal by (rule onExecute_manifest)
    subgoal by (rule ex)
    done
qed

theorem flags_off_operations_reported_witness:
  "example_sortChangeRequests (example_findChangeRequests (projectsByName example_config)
       (path_join example_host (commonFolder example_config) ''changes'')) = example_plan
   \<and> filter aboveDependency example_plan = [example_plan ! 0]
   \<and> projectsByName example_config (packageName (example_plan ! 0)) = Some \<lparr>projectFolder = ''/repo/b''\<rparr>
   \<and> \<not> truthy (targetBranch_value example_dry_parameters) \<and> \<not> publish_value example_dry_parameters
   \<and> example_run example_dry_parameters =
       ([Log (''Starting '' @ [dquote] @ ''rush publish'' @ [dquote] @ '' '' @ [newline]),
         Log ([newline] @ ''* DRYRUN: git checkout -b publish-7 ''),
         ReportManifest ''/repo/b/package.json'' ''1.0.1'',
         ReportManifest ''/repo/a/package.json'' ''1.0.1'',
         Log ([newline] @ ''* DRYRUN: Deleting 1 change file(s).''),
         Log '' - /repo/changes/a.json'',
         Log ([newline] @ ''* DRYRUN: git add . ''),
         Log ([newline] @ ''* DRYRUN: git commit -m '' @ [dquote] @ ''Applying package updates.''
              @ [dquote] @ '' ''),
         Log ([newline] @ ''* DRYRUN: git push origin HEAD:publish-7 --follow-tags --verbose ''),
         Log ([newline] @ ''* DRYRUN: npm publish (/repo/b)''),
         Log ([newline] @ ''* DRYRUN: git tag -a B_v1.0.1 -m '' @ [dquote] @ ''B v1.0.1'' @ [dquote] @ '' ''),
         Log ([newline] @ ''* DRYRUN: git push origin HEAD:publish-7 --follow-tags --verbose ''),
         Log ([newline] @ ''* DRYRUN: git checkout undefined ''),
         Log ([newline] @ ''* DRYRUN: git pull origin undefined ''),
         Log ([newline] @ ''* DRYRUN: git merge publish-7 --no-edit ''),
         Log ([newline] @ ''* DRYRUN: git push origin HEAD:undefined --follow-tags --verbose ''),
         Log ([newline] @ ''* DRYRUN: git branch -d publish-7 ''),
         Log ([newline] @ ''* DRYRUN: git push origin --delete publish-7 ''),
         Log ([newline] @ ''Rush publish finished successfully.'')],
        None)
   \<and> snd (example_run example_parameters) = None
   \<and> fst (example_run example_parameters) =
       [Log (''Starting '' @ [dquote] @ ''rush publish'' @ [dquote] @ '' '' @ [newline]),
        Log ([newline] @ ''* EXECUTING: git checkout -b publish-7 ''),
        ExecuteCommand ''git'' [''checkout'', ''-b'', ''publish-7''] ''/repo'' None,
        WriteManifest ''/repo/b/package.json'' ''1.0.1'',
        WriteManifest ''/repo/a/package.json'' ''1.0.1'',
        Log ([newline] @ ''* DELETING: 1 change file(s).''),
        Log '' - /repo/changes/a.json'',
        DeleteFile ''/repo/changes/a.json'',
        Log ([newline] @ ''* EXECUTING: git add . ''),
        ExecuteCommand ''git'' [''add'', ''.''] ''/repo'' None,
        Log ([newline] @ ''* EXECUTING: git commit -m '' @ [dquote] @ ''Applying package updates.''
             @ [dquote] @ '' ''),
        ExecuteCommand ''git'' [''commit'', ''-m'', [dquote] @ ''Applying package updates.'' @ [dquote]]
          ''/repo'' None,
        Log ([newline] @ ''* EXECUTING: git push origin HEAD:publish-7 --follow-tags --verbose ''),
        ExecuteCommand ''git'' [''push'', ''origin'', ''HEAD:publish-7'', ''--follow-tags'', ''--verbose'']
          ''/repo'' None,
        Log ([newline] @ ''* EXECUTING: npm publish (/repo/b)''),
        ExecuteCommand ''npm'' [''publish''] ''/repo/b'' (Some []),
        Log ([newline] @ ''* EXECUTING: git tag -a B_v1.0.1 -m '' @ [dquote] @ ''B v1.0.1'' @ [dquote] @ '' ''),
        ExecuteCommand ''git'' [''tag'', ''-a'', ''B_v1.0.1'', ''-m'', [dquote] @ ''B v1.0.1'' @ [dquote]]
          ''/repo'' None,
        Log ([newline] @ ''* EXECUTING: git push origin HEAD:publish-7 --follow-tags --verbose ''),
        ExecuteCommand ''git'' [''push'', ''origin'', ''HEAD:publish-7'', ''--follow-tags'', ''--verbose'']
          ''/repo'' None,
        Log ([newline] @ ''* EXECUTING: git checkout master ''),
        ExecuteCommand ''git'' [''checkout'', ''master''] ''/repo'' None,
        Log ([newline] @ ''* EXECUTING: git pull origin master ''),
        ExecuteCommand ''git'' [''pull'', ''origin'', ''master''] ''/repo'' None,
        Log ([newline] @ ''* EXECUTING: git merge publish-7 --no-edit ''),
        ExecuteCommand ''git'' [''merge'', ''publish-7'', ''--no-edit''] ''/repo'' None,
        Log ([newline] @ ''* EXECUTING: git push origin HEAD:master --follow-tags --verbose ''),
        ExecuteCommand ''git'' [''push'', ''origin'', ''HEAD:master'', ''--follow-tags'', ''--verbose'']
          ''/repo'' None,
        Log ([newline] @ ''* EXECUTING: git branch -d publish-7 ''),
        ExecuteCommand ''git'' [''branch'', ''-d'', ''publish-7''] ''/repo'' None,
        Log ([newline] @ ''* EXECUTING: git push origin --delete publish-7 ''),
        ExecuteCommand ''git'' [''push'', ''origin'', ''--delete'', ''publish-7''] ''/repo'' None,
        Log ([newline] @ ''Rush publish finished successfully.'')]"
proof -
  have plan: "example_sortChangeRequests u = example_plan" "example_intendedEdits u = example_edits" for u
    by (simp_all add: example_sortChangeRequests_def example_intendedEdits_def)
  have above: "filter aboveDependency example_plan = [example_plan ! 0]"
    by (simp add: example_plan_def aboveDependency_def)
  have ok: "snd (example_run example_parameters) = None"
    by (simp add: example_defs run_defs)
  have one: "show_nat (Suc 0) = ''1''"
    by (simp add: show_nat.simps digit_char_def)
  note small = plan one show_nat_7 performedAs_def commandText_def changeFilePaths_def indexOf_def
    aboveDependency_def executedAs_def npmPublishCommand_def gitTagCommand_def updatePackages_def
    truthy_def js_str_def example_host_def example_parameters_def example_dry_parameters_def
    example_config_def example_plan_def example_edits_def
  note dry_run = flags_off_operations_reported [where h = example_host and rushConfig = example_config
      and findChangeRequests = example_findChangeRequests
      and sortChangeRequests = example_sortChangeRequests
      and intendedEdits = example_intendedEdits and p = example_dry_parameters
      and shouldExecute = False and command = "''git''"
      and args = "[]" and workingDirectory = "''/repo''" and env = None,
      unfolded Let_def, folded example_run_def]
  from dry_run have dry_ok: "snd (example_run example_dry_parameters) = None"
    by (simp add: small)
  from dry_run dry_ok
  have "fst (example_run example_dry_parameters) =
        [Log (''Starting '' @ [dquote] @ ''rush publish'' @ [dquote] @ '' '' @ [newline]),
         Log ([newline] @ ''* DRYRUN: git checkout -b publish-7 ''),
         ReportManifest ''/repo/b/package.json'' ''1.0.1'',
         ReportManifest ''/repo/a/package.json'' ''1.0.1'',
         Log ([newline] @ ''* DRYRUN: Deleting 1 change file(s).''),
         Log '' - /repo/changes/a.json'',
         Log ([newline] @ ''* DRYRUN: git add . ''),
         Log ([newline] @ ''* DRYRUN: git commit -m '' @ [dquote] @ ''Applying package updates.''
              @ [dquote] @ '' ''),
         Log ([newline] @ ''* DRYRUN: git push origin HEAD:publish-7 --follow-tags --verbose ''),
         Log ([newline] @ ''* DRYRUN: npm publish (/repo/b)''),
         Log ([newline] @ ''* DRYRUN: git tag -a B_v1.0.1 -m '' @ [dquote] @ ''B v1.0.1'' @ [dquote] @ '' ''),
         Log ([newline] @ ''* DRYRUN: git push origin HEAD:publish-7 --follow-tags --verbose ''),
         Log ([newline] @ ''* DRYRUN: git checkout undefined ''),
         Log ([newline] @ ''* DRYRUN: git pull origin undefined ''),
         Log ([newline] @ ''* DRYRUN: git merge publish-7 --no-edit ''),
         Log ([newline] @ ''* DRYRUN: git push origin HEAD:undefined --follow-tags --verbose ''),
         Log ([newline] @ ''* DRYRUN: git branch -d publish-7 ''),
         Log ([newline] @ ''* DRYRUN: git push origin --delete publish-7 ''),
         Log ([newline] @ ''Rush publish finished successfully.'')]"
    by (simp add: small)
  with dry_ok have dry: "example_run example_dry_parameters =
       ([Log (''Starting '' @ [dquote] @ ''rush publish'' @ [dquote] @ '' '' @ [newline]),
         Log ([newline] @ ''* DRYRUN: git checkout -b publish-7 ''),
         ReportManifest ''/repo/b/package.json'' ''1.0.1'',
         ReportManifest ''/repo/a/package.json'' ''1.0.1'',
         Log ([newline] @ ''* DRYRUN: Deleting 1 change file(s).''),
         Log '' - /repo/changes/a.json'',
         Log ([newline] @ ''* DRYRUN: git add . ''),
         Log ([newline] @ ''* DRYRUN: git commit -m '' @ [dquote] @ ''Applying package updates.''
              @ [dquote] @ '' ''),
         Log ([newline] @ ''* DRYRUN: git push origin HEAD:publish-7 --follow-tags --verbose ''),
         Log ([newline] @ ''* DRYRUN: npm publish (/repo/b)''),
         Log ([newline] @ ''* DRYRUN: git tag -a B_v1.0.1 -m '' @ [dquote] @ ''B v1.0.1'' @ [dquote] @ '' ''),
         Log ([newline] @ ''* DRYRUN: git push origin HEAD:publish-7 --follow-tags --verbose ''),
         Log ([newline] @ ''* DRYRUN: git checkout undefined ''),
         Log ([newline] @ ''* DRYRUN: git pull origin undefined ''),
         Log ([newline] @ ''* DRYRUN: git merge publish-7 --no-edit ''),
         Log ([newline] @ ''* DRYRUN: git push origin HEAD:undefined --follow-tags --verbose ''),
         Log ([newline] @ ''* DRYRUN: git branch -d publish-7 ''),
         Log ([newline] @ ''* DRYRUN: git push origin --delete publish-7 ''),
         Log ([newline] @ ''Rush publish finished successfully.'')],
        None)"
    by (simp add: prod_eq_iff)
  from flags_off_operations_reported [where h = example_host and rushConfig = example_config
      and findChangeRequests = example_findChangeRequests
      and sortChangeRequests = example_sortChangeRequests
      and intendedEdits = example_intendedEdits and p = example_parameters
      and shouldExecute = False and command = "''git''"
      and args = "[]" and workingDirectory = "''/repo''" and env = None,
      unfolded Let_def, folded example_run_def] ok
  have wet: "fst (example_run example_parameters) =
       [Log (''Starting '' @ [dquote] @ ''rush publish'' @ [dquote] @ '' '' @ [newline]),
        Log ([newline] @ ''* EXECUTING: git checkout -b publish-7 ''),
        ExecuteCommand ''git'' [''checkout'', ''-b'', ''publish-7''] ''/repo'' None,
        WriteManifest ''/repo/b/package.json'' ''1.0.1'',
        WriteManifest ''/repo/a/package.json'' ''1.0.1'',
        Log ([newline] @ ''* DELETING: 1 change file(s).''),
        Log '' - /repo/changes/a.json'',
        DeleteFile ''/repo/changes/a.json'',
        Log ([newline] @ ''* EXECUTING: git add . ''),
        ExecuteCommand ''git'' [''add'', ''.''] ''/repo'' None,
        Log ([newline] @ ''* EXECUTING: git commit -m '' @ [dquote] @ ''Applying package updates.''
             @ [dquote] @ '' ''),
        ExecuteCommand ''git'' [''commit'', ''-m'', [dquote] @ ''Applying package updates.'' @ [dquote]]
          ''/repo'' None,
        Log ([newline] @ ''* EXECUTING: git push origin HEAD:publish-7 --follow-tags --verbose ''),
        ExecuteCommand ''git'' [''push'', ''origin'', ''HEAD:publish-7'', ''--follow-tags'', ''--verbose'']
          ''/repo'' None,
        Log ([newline] @ ''* EXECUTING: npm publish (/repo/b)''),
        ExecuteCommand ''npm'' [''publish''] ''/repo/b'' (Some []),
        Log ([newline] @ ''* EXECUTING: git tag -a B_v1.0.1 -m '' @ [dquote] @ ''B v1.0.1'' @ [dquote] @ '' ''),
        ExecuteCommand ''git'' [''tag'', ''-a'', ''B_v1.0.1'', ''-m'', [dquote] @ ''B v1.0.1'' @ [dquote]]
          ''/repo'' None,
        Log ([newline] @ ''* EXECUTING: git push origin HEAD:publish-7 --follow-tags --verbose ''),
        ExecuteCommand ''git'' [''push'', ''origin'', ''HEAD:publish-7'', ''--follow-tags'', ''--verbose'']
          ''/repo'' None,
        Log ([newline] @ ''* EXECUTING: git checkout master ''),
        ExecuteCommand ''git'' [''checkout'', ''master''] ''/repo'' None,
        Log ([newline] @ ''* EXECUTING: git pull origin master ''),
        ExecuteCommand ''git'' [''pull'', ''origin'', ''master''] ''/repo'' None,
        Log ([newline] @ ''* EXECUTING: git merge publish-7 --no-edit ''),
        ExecuteCommand ''git'' [''merge'', ''publish-7'', ''--no-edit''] ''/repo'' None,
        Log ([newline] @ ''* EXECUTING: git push origin HEAD:master --follow-tags --verbose ''),
        ExecuteCommand ''git'' [''push'', ''origin'', ''HEAD:master'', ''--follow-tags'', ''--verbose'']
          ''/repo'' None,
        Log ([newline] @ ''* EXECUTING: git branch -d publish-7 ''),
        ExecuteCommand ''git'' [''branch'', ''-d'', ''publish-7''] ''/repo'' None,
        Log ([newline] @ ''* EXECUTING: git push origin --delete publish-7 ''),
        ExecuteCommand ''git'' [''push'', ''origin'', ''--delete'', ''publish-7''] ''/repo'' None,
        Log ([newline] @ ''Rush publish finished successfully.'')]"
    by (simp add: small)
  have h1: "example_sortChangeRequests (example_findChangeRequests (projectsByName example_config)
       (path_join example_host (commonFolder example_config) ''changes'')) = example_plan"
    by (rule plan)
  have h2: "projectsByName example_config (packageName (example_plan ! 0)) = Some \<lparr>projectFolder = ''/repo/b''\<rparr>"
    by (simp add: example_plan_def example_config_def)
  have h3: "\<not> truthy (targetBranch_value example_dry_parameters)" "\<not> publish_value example_dry_parameters"
    by (simp_all add: example_dry_parameters_def truthy_def)
  show ?thesis
    by (intro conjI) (rule h1 above h2 h3 dry ok wet)+
qed

text \<open>
  The example run without target branch reports \<open>git checkout undefined\<close>,
  \<open>git pull origin undefined\<close> and a push to \<open>HEAD:undefined\<close>; with the target branch
  \<open>master\<close> the run executes these commands on \<open>master\<close>, and none on \<open>undefined\<close>.
\<close>

theorem reported_git_commands_differ_counterexample:
  "\<not> truthy (targetBranch_value (example_parameters\<lparr>targetBranch_value := None\<rparr>))
   \<and> Log ([newline] @ ''* DRYRUN: git checkout undefined '')
        \<in> set (fst (example_run (example_parameters\<lparr>targetBranch_value := None\<rparr>)))
   \<and> Log ([newline] @ ''* DRYRUN: git checkout master '')
        \<notin> set (fst (example_run (example_parameters\<lparr>targetBranch_value := None\<rparr>)))
   \<and> Log ([newline] @ ''* DRYRUN: git pull origin undefined '')
        \<in> set (fst (example_run (example_parameters\<lparr>targetBranch_value := None\<rparr>)))
   \<and> Log ([newline] @ ''* DRYRUN: git push origin HEAD:undefined --follow-tags --verbose '')
        \<in> set (fst (example_run (example_parameters\<lparr>targetBranch_value := None\<rparr>)))
   \<and> truthy (targetBranch_value example_parameters)
   \<and> snd (example_run example_parameters) = None
   \<and> ExecuteCommand ''git'' [''checkout'', ''master''] ''/repo'' None
        \<in> set (fst (example_run example_parameters))
   \<and> ExecuteCommand ''git'' [''checkout'', ''undefined''] ''/repo'' None
        \<notin> set (fst (example_run example_parameters))
   \<and> ExecuteCommand ''git'' [''pull'', ''origin'', ''master''] ''/repo'' None
        \<in> set (fst (example_run example_parameters))
   \<and> ExecuteCommand ''git'' [''push'', ''origin'', ''HEAD:master'', ''--follow-tags'', ''--verbose'']
          ''/repo'' None
        \<in> set (fst (example_run example_parameters))"
  by (simp add: example_defs run_defs)

section \<open>Properties of \<open>ExtractorConfig.loadFile\<close>\<close>

lemma loadStep_loadable: "loadStep h cur cfg = Inr r \<Longrightarrow> cur \<in> loadable h"
  by (auto simp: loadStep_def loadable_def Let_def split: sum.splits)

lemma loadLoop_returns:
  assumes "finite (loadable h)"
  shows "\<exists>r. loadLoop h visitedPaths currentConfigFilePath configObject = Some r"
proof (induction "card (loadable h - visitedPaths)" arbitrary: visitedPaths currentConfigFilePath configObject
    rule: less_induct)
  case less
  show ?case
  proof (cases "currentConfigFilePath \<in> visitedPaths")
    case True
    then show ?thesis by (subst loadLoop.simps) simp
  next
    case False
    show ?thesis
    proof (cases "loadStep h currentConfigFilePath configObject")
      case (Inl message)
      with False show ?thesis by (subst loadLoop.simps) simp
    next
      case (Inr r)
      then have "currentConfigFilePath \<in> loadable h - visitedPaths"
        using False by (auto dest: loadStep_loadable)
      then have "card (loadable h - insert currentConfigFilePath visitedPaths)
          < card (loadable h - visitedPaths)"
        using assms
        by (metis Diff_insert card_Diff1_less finite_Diff)
      from less [OF this] False Inr show ?thesis
        by (subst loadLoop.simps) (simp split: prod.splits)
    qed
  qed
qed

lemma loadLoop_revisit:
  "currentConfigFilePath \<in> visitedPaths \<Longrightarrow>
   loadLoop h visitedPaths currentConfigFilePath configObject =
     Some (Inl (errorLoading currentConfigFilePath (cycleMessage currentConfigFilePath)))"
  by (subst loadLoop.simps) simp

lemma processedBefore_Suc:
  "extendsChain h start n = Some (cur, cfg) \<Longrightarrow>
   processedBefore h start (Suc n) = insert cur (processedBefore h start n)"
  by (auto simp: processedBefore_def map_filter_def)

lemma loadLoop_along_chain:
  assumes "extendsChain h start n = Some (cur, cfg)"
    and "\<And>m f c. m < n \<Longrightarrow> extendsChain h start m = Some (f, c) \<Longrightarrow> f \<notin> processedBefore h start m"
  shows "loadLoop h {} start [] = loadLoop h (processedBefore h start n) cur cfg"
  using assms
proof (induction n arbitrary: cur cfg)
  case 0
  then show ?case by (simp add: processedBefore_def map_filter_def)
next
  case (Suc n)
  from Suc.prems(1) obtain f c where chain: "extendsChain h start n = Some (f, c)"
    and step: "loadStep h f c = Inr (cur, cfg)" and more: "cur \<noteq> []"
    by (auto split: option.splits sum.splits prod.splits if_splits)
  have fresh: "f \<notin> processedBefore h start n"
    using Suc.prems(2) [of n f c] chain by simp
  have "loadLoop h {} start [] = loadLoop h (processedBefore h start n) f c"
    using Suc.IH [OF chain] Suc.prems(2) by simp
  also have "\<dots> = loadLoop h (insert f (processedBefore h start n)) cur cfg"
    using fresh step more by (subst loadLoop.simps) simp
  finally show ?case
    by (simp add: processedBefore_Suc [OF chain])
qed

lemma loadLoop_cycle:
  assumes "extendsChain h start n = Some (cur, cfg)" and "cur \<in> processedBefore h start n"
  shows "\<exists>k f c. k \<le> n \<and> extendsChain h start k = Some (f, c) \<and> f \<in> processedBefore h start k
    \<and> loadLoop h {} start [] = Some (Inl (errorLoading f (cycleMessage f)))"
proof -
  define revisit where
    "revisit k \<longleftrightarrow> (\<exists>f c. extendsChain h start k = Some (f, c) \<and> f \<in> processedBefore h start k)" for k
  have "revisit n" using assms by (auto simp: revisit_def)
  then obtain k where k: "revisit k" and least: "\<And>m. m < k \<Longrightarrow> \<not> revisit m"
    using exists_least_iff [of revisit] by auto
  from k obtain f c where chain: "extendsChain h start k = Some (f, c)"
    and seen: "f \<in> processedBefore h start k"
    by (auto simp: revisit_def)
  have "k \<le> n"
    using least [of n] \<open>revisit n\<close> by (cases "k \<le> n") auto
  moreover have "loadLoop h {} start [] = loadLoop h (processedBefore h start k) f c"
    by (rule loadLoop_along_chain [OF chain]) (use least in \<open>auto simp: revisit_def\<close>)
  ultimately show ?thesis
    using chain seen by (auto simp: loadLoop_revisit)
qed

text \<open>
  Claim C10. \<open>ExtractorConfig.loadFile\<close> returns, with a configuration or with an error,
  on every host whose file system holds finitely many files that \<open>JsonFile.load\<close> can
  load. When the chain of \<open>extends\<close> comes back to a file that an earlier pass of the loop
  has processed, the result is the error \<open>Error loading <file>\<close> whose message says that
  the \<open>extends\<close> setting contains a cycle and that \<open><file>\<close> is included twice, for a
  file of the chain that was processed before: the first to come back.
\<close>

theorem loadFile_terminates:
  "(finite (loadable h) \<longrightarrow> (\<exists>r. loadFile h jsonFilePath = Some r))
   \<and> (\<forall>n cur cfg.
        extendsChain h (pathResolve h (processCwd h) jsonFilePath) n = Some (cur, cfg)
        \<and> cur \<in> processedBefore h (pathResolve h (processCwd h) jsonFilePath) n \<longrightarrow>
        (\<exists>k f c. k \<le> n
           \<and> extendsChain h (pathResolve h (processCwd h) jsonFilePath) k = Some (f, c)
           \<and> f \<in> processedBefore h (pathResolve h (processCwd h) jsonFilePath) k
           \<and> loadFile h jsonFilePath =
               Some (Inl (''Error loading '' @ f @ '':'' @ [newline]
                          @ ''The API Extractor '' @ [dquote] @ ''extends'' @ [dquote]
                          @ '' setting contains a cycle.  This file is included twice: ''
                          @ [dquote] @ f @ [dquote]))))"
proof (intro conjI allI impI)
  assume "finite (loadable h)"
  from loadLoop_returns [OF this, of "{}" "pathResolve h (processCwd h) jsonFilePath" "[]"]
  show "\<exists>r. loadFile h jsonFilePath = Some r"
    by (auto simp: loadFile_def Let_def split: sum.splits option.splits)
next
  fix n cur cfg
  assume "extendsChain h (pathResolve h (processCwd h) jsonFilePath) n = Some (cur, cfg)
        \<and> cur \<in> processedBefore h (pathResolve h (processCwd h) jsonFilePath) n"
  then obtain k f c where "k \<le> n"
    "extendsChain h (pathResolve h (processCwd h) jsonFilePath) k = Some (f, c)"
    "f \<in> processedBefore h (pathResolve h (processCwd h) jsonFilePath) k"
    "loadLoop h {} (pathResolve h (processCwd h) jsonFilePath) []
       = Some (Inl (errorLoading f (cycleMessage f)))"
    using loadLoop_cycle [of h "pathResolve h (processCwd h) jsonFilePath" n cur cfg] by blast
  then show "\<exists>k f c. k \<le> n
           \<and> extendsChain h (pathResolve h (processCwd h) jsonFilePath) k = Some (f, c)
           \<and> f \<in> processedBefore h (pathResolve h (processCwd h) jsonFilePath) k
           \<and> loadFile h jsonFilePath =
               Some (Inl (''Error loading '' @ f @ '':'' @ [newline]
                          @ ''The API Extractor '' @ [dquote] @ ''extends'' @ [dquote]
                          @ '' setting contains a cycle.  This file is included twice: ''
                          @ [dquote] @ f @ [dquote]))"
    by (auto simp: loadFile_def errorLoading_def cycleMessage_def)
qed

lemmas extractor_defs = example_extractor_host_def loadFile_def loadStep_def Let_def merge_def
  resolveConfigFileRelativePaths_def resolveConfigFileRelativePath_def pathSettings_def
  indexOf_def isSlash_def

theorem loadFile_terminates_witness:
  "finite (loadable example_extractor_host)
   \<and> (\<exists>r. loadFile example_extractor_host ''a.json'' = Some r)
   \<and> extendsChain example_extractor_host ''/p/a.json'' (Suc (Suc 0))
       = Some (''/p/a.json'', [(''projectFolder'', ''/p/.'')])
   \<and> ''/p/a.json'' \<in> processedBefore example_extractor_host ''/p/a.json'' (Suc (Suc 0))
   \<and> loadFile example_extractor_host ''a.json''
       = Some (Inl (''Error loading /p/a.json:'' @ [newline]
                    @ ''The API Extractor '' @ [dquote] @ ''extends'' @ [dquote]
                    @ '' setting contains a cycle.  This file is included twice: ''
                    @ [dquote] @ ''/p/a.json'' @ [dquote]))
   \<and> loadFile example_extractor_host ''c.json''
       = Some (Inr [(''newlineKind'', ''crlf''), (''projectFolder'', ''<projectFolder>/x''),
                    (''mainEntryPointFilePath'', ''/p/lib/index.d.ts'')])"
proof -
  have fin: "finite (loadable example_extractor_host)"
    by (rule finite_subset [of _ "{''/p/a.json'', ''/p/b.json'', ''/p/c.json'', ''/p/d.json''}"])
       (auto simp: loadable_def example_extractor_host_def split: if_splits)
  have start: "pathResolve example_extractor_host (processCwd example_extractor_host) ''a.json'' = ''/p/a.json''"
    by (simp add: example_extractor_host_def)
  have chain: "extendsChain example_extractor_host ''/p/a.json'' (Suc (Suc 0))
       = Some (''/p/a.json'', [(''projectFolder'', ''/p/.'')])"
    by (simp add: extractor_defs)
  have seen: "''/p/a.json'' \<in> processedBefore example_extractor_host ''/p/a.json'' (Suc (Suc 0))"
    by (simp add: processedBefore_def map_filter_def extractor_defs)
  have first: "extendsChain example_extractor_host ''/p/a.json'' k = Some (f, c) \<Longrightarrow>
      f \<in> processedBefore example_extractor_host ''/p/a.json'' k \<Longrightarrow> k \<le> Suc (Suc 0) \<Longrightarrow> f = ''/p/a.json''"
    for k f c
  proof -
    assume a: "extendsChain example_extractor_host ''/p/a.json'' k = Some (f, c)"
      "f \<in> processedBefore example_extractor_host ''/p/a.json'' k" "k \<le> Suc (Suc 0)"
    from a(3) consider "k = 0" | "k = Suc 0" | "k = Suc (Suc 0)"
      by (cases k rule: nat.exhaust; cases "k - 1"; auto)
    then show ?thesis
      using a(1,2) by cases (auto simp: processedBefore_def map_filter_def extractor_defs)
  qed
  from loadFile_terminates [of example_extractor_host "''a.json''"] fin
  have ret: "\<exists>r. loadFile example_extractor_host ''a.json'' = Some r"
    by blast
  from loadFile_terminates [of example_extractor_host "''a.json''", unfolded start] chain seen
  obtain k f c where k: "k \<le> Suc (Suc 0)"
    "extendsChain example_extractor_host ''/p/a.json'' k = Some (f, c)"
    "f \<in> processedBefore example_extractor_host ''/p/a.json'' k"
    "loadFile example_extractor_host ''a.json'' =
               Some (Inl (''Error loading '' @ f @ '':'' @ [newline]
                          @ ''The API Extractor '' @ [dquote] @ ''extends'' @ [dquote]
                          @ '' setting contains a cycle.  This file is included twice: ''
                          @ [dquote] @ f @ [dquote]))"
    by blast
  from first [OF k(2) k(3) k(1)] k(4)
  have run: "loadFile example_extractor_host ''a.json''
       = Some (Inl (''Error loading /p/a.json:'' @ [newline]
                    @ ''The API Extractor '' @ [dquote] @ ''extends'' @ [dquote]
                    @ '' setting contains a cycle.  This file is included twice: ''
                    @ [dquote] @ ''/p/a.json'' @ [dquote]))"
    by simp
  have run': "loadFile example_extractor_host ''c.json''
       = Some (Inr [(''newlineKind'', ''crlf''), (''projectFolder'', ''<projectFolder>/x''),
                    (''mainEntryPointFilePath'', ''/p/lib/index.d.ts'')])"
    by (simp add: extractor_defs loadLoop.simps)
  from ret fin chain seen run run' show ?thesis
    by blast
qed

section \<open>Properties of the version-bump engine\<close>

lemma kahnInv_step:
  assumes inv: "kahnInv graph affected remaining inDegree order"
    and rem: "filter (\<lambda>package. inDegree package = 0) remaining \<noteq> []"
  defines "P \<equiv> Min (set (filter (\<lambda>package. inDegree package = 0) remaining))"
  shows "kahnInv graph affected (removeAll P remaining)
           (\<lambda>D. if P \<in> set (prodDependenciesOf graph D) then inDegree D - 1 else inDegree D)
           (order @ [P])"
proof -
  have Pin: "P \<in> set (filter (\<lambda>package. inDegree package = 0) remaining)"
    unfolding P_def using rem by (intro Min_in) (auto simp: filter_empty_conv)
  then have Prem: "P \<in> set remaining" and P0: "inDegree P = 0"
    by simp_all
  have Pmin: "P \<le> n" if "n \<in> set remaining" "inDegree n = 0" for n
    unfolding P_def using that by (intro Min_le) simp_all
  from inv have un: "set remaining \<union> set order = affected"
    and dj: "set remaining \<inter> set order = {}" and di: "distinct order"
    and deg: "\<And>n. n \<in> set remaining \<Longrightarrow> inDegree n = card (depsIn graph (set remaining) n)"
    and topo: "\<And>i. i < length order \<Longrightarrow> depsIn graph affected (order ! i) \<subseteq> set (take i order)"
    and tie: "\<And>i n. i < length order \<Longrightarrow> n \<in> affected - set (take i order) \<Longrightarrow>
           depsIn graph affected n \<subseteq> set (take i order) \<Longrightarrow> order ! i \<le> n"
    by (auto simp: kahnInv_def)
  have fin: "finite (depsIn graph S n)" for S n
    by (simp add: depsIn_def)
  have zero: "inDegree n = 0 \<longleftrightarrow> depsIn graph (set remaining) n = {}" if "n \<in> set remaining" for n
    using deg [OF that] fin by simp
  have Pdeps: "depsIn graph (set remaining) P = {}"
    using zero [OF Prem] P0 by simp
  have aff: "depsIn graph affected n = depsIn graph (set remaining) n \<union> depsIn graph (set order) n" for n
    using un by (auto simp: depsIn_def)
  have 1: "set (removeAll P remaining) \<union> set (order @ [P]) = affected"
    using un Prem by auto
  have 2: "set (removeAll P remaining) \<inter> set (order @ [P]) = {}"
    using dj by auto
  have 3: "distinct (order @ [P])"
    using di dj Prem by auto
  have 4: "(if P \<in> set (prodDependenciesOf graph n) then inDegree n - 1 else inDegree n)
      = card (depsIn graph (set (removeAll P remaining)) n)" if "n \<in> set (removeAll P remaining)" for n
  proof -
    from that have n: "n \<in> set remaining" by auto
    show ?thesis
    proof (cases "P \<in> set (prodDependenciesOf graph n)")
      case True
      then have "P \<in> depsIn graph (set remaining) n"
        using Prem by (simp add: depsIn_def)
      moreover have "depsIn graph (set (removeAll P remaining)) n = depsIn graph (set remaining) n - {P}"
        by (auto simp: depsIn_def)
      ultimately show ?thesis
        using True deg [OF n] fin by simp
    next
      case False
      then have "depsIn graph (set (removeAll P remaining)) n = depsIn graph (set remaining) n"
        by (auto simp: depsIn_def)
      with False deg [OF n] show ?thesis by simp
    qed
  qed
  have 5: "depsIn graph affected ((order @ [P]) ! i) \<subseteq> set (take i (order @ [P]))"
    if "i < length (order @ [P])" for i
  proof (cases "i < length order")
    case True
    with topo [OF True] show ?thesis by (simp add: nth_append)
  next
    case False
    with that have "i = length order" by simp
    then show ?thesis
      using Pdeps aff [of P] by (auto simp: depsIn_def)
  qed
  have 6: "(order @ [P]) ! i \<le> n"
    if "i < length (order @ [P])" "n \<in> affected - set (take i (order @ [P]))"
      "depsIn graph affected n \<subseteq> set (take i (order @ [P]))" for i n
  proof (cases "i < length order")
    case True
    with tie [of i n] that show ?thesis by (simp add: nth_append)
  next
    case False
    with that have i: "i = length order" by simp
    with that un have n: "n \<in> set remaining" by auto
    have "depsIn graph (set remaining) n \<subseteq> set order"
      using that(3) i aff [of n] by auto
    then have "depsIn graph (set remaining) n = {}"
      using dj by (auto simp: depsIn_def)
    then have "inDegree n = 0"
      using zero [OF n] by simp
    from Pmin [OF n this] i show ?thesis by simp
  qed
  show ?thesis
    unfolding kahnInv_def using 1 2 3 4 5 6 by blast
qed

lemma kahn_ok:
  assumes "kahnInv graph affected remaining inDegree order"
    and "kahn graph remaining inDegree order = Inr result"
  shows "kahnInv graph affected [] inDegree' result"
  using assms
proof (induction graph remaining inDegree order rule: kahn.induct)
  case (1 graph remaining inDegree order)
  show ?case
  proof (cases "filter (\<lambda>package. inDegree package = 0) remaining = []")
    case True
    with "1.prems"(2) have "remaining = []" "result = order"
      by (auto simp: kahn.simps [of graph remaining] split: if_splits)
    with "1.prems"(1) show ?thesis
      by (simp add: kahnInv_def)
  next
    case False
    let ?P = "Min (set (filter (\<lambda>package. inDegree package = 0) remaining))"
    let ?deg = "\<lambda>D. if ?P \<in> set (prodDependenciesOf graph D) then inDegree D - 1 else inDegree D"
    have "kahn graph (removeAll ?P remaining) ?deg (order @ [?P]) = Inr result"
      using "1.prems"(2) False by (simp add: kahn.simps [of graph remaining] Let_def)
    moreover have "kahnInv graph affected (removeAll ?P remaining) ?deg (order @ [?P])"
      by (rule kahnInv_step [OF "1.prems"(1) False])
    ultimately show ?thesis
      using "1.IH" [OF refl False refl refl] by simp
  qed
qed

lemma kahnInv_initial: "kahnInv graph (set affected) affected (inDegrees graph affected) []"
proof -
  have "inDegrees graph affected n = card (depsIn graph (set affected) n)" for n
    by (simp add: inDegrees_def depsIn_def length_remdups_card_conv Int_def conj_commute)
  then show ?thesis
    by (simp add: kahnInv_def)
qed

lemma kahn_error:
  assumes "kahnInv graph affected remaining inDegree order"
    and "kahn graph remaining inDegree order = Inl e"
  shows "\<exists>members. e = CyclicDependency members \<and> members \<noteq> [] \<and> set members \<subseteq> affected
     \<and> (\<forall>m\<in>set members. depsIn graph (set members) m \<noteq> {})"
  using assms
proof (induction graph remaining inDegree order rule: kahn.induct)
  case (1 graph remaining inDegree order)
  show ?case
  proof (cases "filter (\<lambda>package. inDegree package = 0) remaining = []")
    case True
    with "1.prems"(2) have e: "e = CyclicDependency remaining" and ne: "remaining \<noteq> []"
      by (auto simp: kahn.simps [of graph remaining] split: if_splits)
    have "depsIn graph (set remaining) m \<noteq> {}" if "m \<in> set remaining" for m
    proof -
      have "inDegree m \<noteq> 0"
        using True that by (auto simp: filter_empty_conv)
      moreover have "inDegree m = card (depsIn graph (set remaining) m)"
        using "1.prems"(1) that by (simp add: kahnInv_def)
      ultimately show ?thesis by auto
    qed
    with e ne "1.prems"(1) show ?thesis
      by (auto simp: kahnInv_def)
  next
    case False
    let ?P = "Min (set (filter (\<lambda>package. inDegree package = 0) remaining))"
    let ?deg = "\<lambda>D. if ?P \<in> set (prodDependenciesOf graph D) then inDegree D - 1 else inDegree D"
    have "kahn graph (removeAll ?P remaining) ?deg (order @ [?P]) = Inl e"
      using "1.prems"(2) False by (simp add: kahn.simps [of graph remaining] Let_def)
    moreover have "kahnInv graph affected (removeAll ?P remaining) ?deg (order @ [?P])"
      by (rule kahnInv_step [OF "1.prems"(1) False])
    ultimately show ?thesis
      using "1.IH" [OF refl False refl refl] by simp
  qed
qed

lemma kahn_cycle:
  assumes "kahnInv graph affected remaining inDegree order"
    and "S \<subseteq> set remaining" and "S \<noteq> {}" and "\<forall>s\<in>S. depsIn graph S s \<noteq> {}"
  shows "\<exists>members. kahn graph remaining inDegree order = Inl (CyclicDependency members)
     \<and> S \<subseteq> set members"
  using assms
proof (induction graph remaining inDegree order rule: kahn.induct)
  case (1 graph remaining inDegree order)
  show ?case
  proof (cases "filter (\<lambda>package. inDegree package = 0) remaining = []")
    case True
    moreover have "remaining \<noteq> []"
      using "1.prems"(2,3) by auto
    ultimately show ?thesis
      using "1.prems"(2) by (simp add: kahn.simps [of graph remaining])
  next
    case False
    let ?P = "Min (set (filter (\<lambda>package. inDegree package = 0) remaining))"
    let ?deg = "\<lambda>D. if ?P \<in> set (prodDependenciesOf graph D) then inDegree D - 1 else inDegree D"
    have Pin: "?P \<in> set (filter (\<lambda>package. inDegree package = 0) remaining)"
      using False by (intro Min_in) (auto simp: filter_empty_conv)
    have "?P \<notin> S"
    proof
      assume PS: "?P \<in> S"
      then have "depsIn graph S ?P \<noteq> {}"
        using "1.prems"(4) by blast
      then have "depsIn graph (set remaining) ?P \<noteq> {}"
        using "1.prems"(2) by (auto simp: depsIn_def)
      moreover have "finite (depsIn graph (set remaining) ?P)"
        by (simp add: depsIn_def)
      moreover have "?P \<in> set remaining" "inDegree ?P = 0"
        using Pin by simp_all
      moreover have "\<forall>n\<in>set remaining. inDegree n = card (depsIn graph (set remaining) n)"
        using "1.prems"(1) unfolding kahnInv_def by blast
      ultimately have "card (depsIn graph (set remaining) ?P) = 0"
        "finite (depsIn graph (set remaining) ?P)" "depsIn graph (set remaining) ?P \<noteq> {}"
        by simp_all
      then show False
        by simp
    qed
    then have sub: "S \<subseteq> set (removeAll ?P remaining)"
      using "1.prems"(2) by auto
    have eq: "kahn graph remaining inDegree order
        = kahn graph (removeAll ?P remaining) ?deg (order @ [?P])"
      using False by (simp add: kahn.simps [of graph remaining] Let_def)
    have "kahnInv graph affected (removeAll ?P remaining) ?deg (order @ [?P])"
      by (rule kahnInv_step [OF "1.prems"(1) False])
    from "1.IH" [OF refl False refl refl this sub "1.prems"(3,4)] show ?thesis
      unfolding eq .
  qed
qed

lemma kahn_set_determined:
  assumes "set remaining = set remaining'"
    and "\<forall>n\<in>set remaining. inDegree n = inDegree' n"
    and "kahn graph remaining inDegree order = Inr result"
  shows "kahn graph remaining' inDegree' order = Inr result"
  using assms
proof (induction graph remaining inDegree order arbitrary: remaining' inDegree' rule: kahn.induct)
  case (1 graph remaining inDegree order)
  define removable where "removable = filter (\<lambda>package. inDegree package = 0) remaining"
  define removable' where "removable' = filter (\<lambda>package. inDegree' package = 0) remaining'"
  have same: "set removable' = set removable"
    unfolding removable_def removable'_def using "1.prems"(1,2) by auto
  show ?case
  proof (cases "removable = []")
    case True
    then have "removable' = []"
      using same by simp
    moreover from True "1.prems"(3) have "remaining = []" "result = order"
      by (auto simp: kahn.simps [of graph remaining] removable_def split: if_splits)
    moreover have "remaining' = []"
      using "1.prems"(1) \<open>remaining = []\<close> by simp
    ultimately show ?thesis
      by (subst kahn.simps) (simp add: removable'_def)
  next
    case False
    then have False': "removable' \<noteq> []"
      using same by (metis set_empty)
    define P where "P = Min (set removable)"
    define deg where "deg = (\<lambda>D. if P \<in> set (prodDependenciesOf graph D) then inDegree D - 1 else inDegree D)"
    define deg' where "deg' = (\<lambda>D. if P \<in> set (prodDependenciesOf graph D) then inDegree' D - 1 else inDegree' D)"
    have run: "kahn graph (removeAll P remaining) deg (order @ [P]) = Inr result"
      using "1.prems"(3) False
      by (simp add: kahn.simps [of graph remaining] Let_def removable_def P_def deg_def)
    have sets: "set (removeAll P remaining) = set (removeAll P remaining')"
      using "1.prems"(1) by simp
    have degs: "\<forall>n\<in>set (removeAll P remaining). deg n = deg' n"
      using "1.prems"(2) by (simp add: deg_def deg'_def)
    have "kahn graph (removeAll P remaining') deg' (order @ [P]) = Inr result"
      using "1.IH" [OF removable_def False P_def deg_def sets degs run] .
    moreover have "Min (set removable') = P"
      by (simp add: same P_def)
    ultimately show ?thesis
      using False' by (subst kahn.simps) (simp add: Let_def removable'_def [symmetric] deg'_def)
  qed
qed

lemma kahnInv_result:
  assumes "kahnInv graph affected [] inDegree order"
  shows "set order = affected" and "distinct order"
    and "i < length order \<Longrightarrow> depsIn graph affected (order ! i) \<subseteq> set (take i order)"
    and "i < length order \<Longrightarrow> n \<in> affected \<Longrightarrow> n \<notin> set (take i order) \<Longrightarrow>
         depsIn graph affected n \<subseteq> set (take i order) \<Longrightarrow> order ! i \<le> n"
proof -
  from assms show "set order = affected" unfolding kahnInv_def by simp
  from assms show "distinct order" unfolding kahnInv_def by simp
  from assms have "\<forall>i<length order. depsIn graph affected (order ! i) \<subseteq> set (take i order)"
    unfolding kahnInv_def by (elim conjE)
  then show "i < length order \<Longrightarrow> depsIn graph affected (order ! i) \<subseteq> set (take i order)"
    by simp
  from assms have "\<forall>i<length order. \<forall>n\<in>affected - set (take i order).
           depsIn graph affected n \<subseteq> set (take i order) \<longrightarrow> order ! i \<le> n"
    unfolding kahnInv_def by (elim conjE)
  then show "i < length order \<Longrightarrow> n \<in> affected \<Longrightarrow> n \<notin> set (take i order) \<Longrightarrow>
         depsIn graph affected n \<subseteq> set (take i order) \<Longrightarrow> order ! i \<le> n"
    by simp
qed

lemma publishSequencer_ok:
  "publishSequencer graph affected = Inr order \<Longrightarrow> kahnInv graph (set affected) [] (\<lambda>n. 0) order"
  unfolding publishSequencer_def by (rule kahn_ok [OF kahnInv_initial])

lemma publishSequencer_topological:
  "publishSequencer graph affected = Inr order \<longrightarrow>
     (\<forall>i j. i < length order \<and> j < length order
         \<and> order ! j \<in> set (prodDependenciesOf graph (order ! i)) \<longrightarrow> j < i)
     \<and> set order = set affected \<and> distinct order"
proof (intro impI)
  assume "publishSequencer graph affected = Inr order"
  note R = kahnInv_result [OF publishSequencer_ok [OF this]]
  have "j < i" if "i < length order" "j < length order"
    "order ! j \<in> set (prodDependenciesOf graph (order ! i))" for i j
  proof -
    have "order ! j \<in> set affected"
      using that(2) R(1) nth_mem by blast
    then have "order ! j \<in> depsIn graph (set affected) (order ! i)"
      using that(3) by (simp add: depsIn_def)
    with R(3) [OF that(1)] have "order ! j \<in> set (take i order)"
      by blast
    then obtain k where k: "k < length (take i order)" "take i order ! k = order ! j"
      unfolding in_set_conv_nth by blast
    then have "k < i" "k < length order" "order ! k = order ! j"
      using that(1) by simp_all
    with R(2) that(2) show ?thesis
      by (simp add: nth_eq_iff_index_eq)
  qed
  with R(1,2) show "(\<forall>i j. i < length order \<and> j < length order
         \<and> order ! j \<in> set (prodDependenciesOf graph (order ! i)) \<longrightarrow> j < i)
     \<and> set order = set affected \<and> distinct order"
    by blast
qed

text \<open>
  Claim C1. When the Publish Sequencer returns an order, every production dependency of
  a package of the order that is itself in the order stands strictly before the package,
  and the order holds the affected packages, each once.
\<close>

theorem publish_order_respects_production_edges:
  "(publishSequencer graph affected = Inr order \<longrightarrow>
     (\<forall>i j. i < length order \<and> j < length order
         \<and> order ! j \<in> set (prodDependenciesOf graph (order ! i)) \<longrightarrow> j < i)
     \<and> set order = set affected \<and> distinct order)
   \<and> (runEngine requests graph = Inr (order, plan) \<longrightarrow>
     (\<forall>i j. i < length order \<and> j < length order
         \<and> order ! j \<in> set (prodDependenciesOf graph (order ! i)) \<longrightarrow> j < i)
     \<and> set order = plan_packageName ` set plan \<and> distinct order)"
proof (intro conjI)
  show "publishSequencer graph affected = Inr order \<longrightarrow>
     (\<forall>i j. i < length order \<and> j < length order
         \<and> order ! j \<in> set (prodDependenciesOf graph (order ! i)) \<longrightarrow> j < i)
     \<and> set order = set affected \<and> distinct order"
    by (rule publishSequencer_topological)
  show "runEngine requests graph = Inr (order, plan) \<longrightarrow>
     (\<forall>i j. i < length order \<and> j < length order
         \<and> order ! j \<in> set (prodDependenciesOf graph (order ! i)) \<longrightarrow> j < i)
     \<and> set order = plan_packageName ` set plan \<and> distinct order"
  proof
    assume "runEngine requests graph = Inr (order, plan)"
    then have "publishSequencer graph (map plan_packageName plan) = Inr order"
      by (auto simp: runEngine_def split: sum.splits)
    with publishSequencer_topological [of graph "map plan_packageName plan" order]
    show "(\<forall>i j. i < length order \<and> j < length order
         \<and> order ! j \<in> set (prodDependenciesOf graph (order ! i)) \<longrightarrow> j < i)
     \<and> set order = plan_packageName ` set plan \<and> distinct order"
      by simp
  qed
qed

text \<open>
  Claim C5. The order is a function of the affected set and the graph. At each position
  it holds the lexicographically smallest name among the affected packages that are not
  yet placed and whose affected production dependencies are all placed; and the order is
  the same for every listing of the same set of affected packages.
\<close>

theorem publish_order_smallest_name_first:
  "publishSequencer graph affected = Inr order \<longrightarrow>
     (\<forall>i<length order. \<forall>n\<in>set affected - set (take i order).
         set (prodDependenciesOf graph n) \<inter> set affected \<subseteq> set (take i order) \<longrightarrow> order ! i \<le> n)
     \<and> (\<forall>affected'. set affected' = set affected \<longrightarrow> publishSequencer graph affected' = Inr order)"
proof (intro impI conjI)
  assume ok: "publishSequencer graph affected = Inr order"
  note R = kahnInv_result [OF publishSequencer_ok [OF ok]]
  show "\<forall>i<length order. \<forall>n\<in>set affected - set (take i order).
         set (prodDependenciesOf graph n) \<inter> set affected \<subseteq> set (take i order) \<longrightarrow> order ! i \<le> n"
  proof (intro allI impI ballI)
    fix i n
    assume "i < length order" "n \<in> set affected - set (take i order)"
      "set (prodDependenciesOf graph n) \<inter> set affected \<subseteq> set (take i order)"
    then show "order ! i \<le> n"
      using R(4) [of i n] by (simp add: depsIn_def)
  qed
  show "\<forall>affected'. set affected' = set affected \<longrightarrow> publishSequencer graph affected' = Inr order"
  proof (intro allI impI)
    fix affected' :: "string list" assume same: "set affected' = set affected"
    then have deg: "inDegrees graph affected' = inDegrees graph affected"
      by (simp add: inDegrees_def fun_eq_iff)
    have "kahn graph affected' (inDegrees graph affected) [] = Inr order"
      by (rule kahn_set_determined [of affected affected' "inDegrees graph affected"])
         (use ok same in \<open>simp_all add: publishSequencer_def\<close>)
    then show "publishSequencer graph affected' = Inr order"
      by (simp add: publishSequencer_def deg)
  qed
qed

text \<open>
  Claim C7. When the Publish Sequencer fails, the error is \<open>CyclicDependency\<close> with a
  list of affected packages that is not empty, each of which has a production dependency
  in the list; and whenever some affected packages depend on one another in a cycle (each
  has a production dependency among them), the sequencer fails with \<open>CyclicDependency\<close>
  and names all of them. A failure carries no order.
\<close>

theorem cycle_fails_with_all_unresolved:
  "(publishSequencer graph affected = Inl e \<longrightarrow>
      (\<exists>members. e = CyclicDependency members \<and> members \<noteq> [] \<and> set members \<subseteq> set affected
         \<and> (\<forall>m\<in>set members. set (prodDependenciesOf graph m) \<inter> set members \<noteq> {})))
   \<and> (S \<subseteq> set affected \<and> S \<noteq> {} \<and> (\<forall>s\<in>S. set (prodDependenciesOf graph s) \<inter> S \<noteq> {}) \<longrightarrow>
      (\<exists>members. publishSequencer graph affected = Inl (CyclicDependency members) \<and> S \<subseteq> set members))"
proof (intro conjI impI)
  assume "publishSequencer graph affected = Inl e"
  then have "kahn graph affected (inDegrees graph affected) [] = Inl e"
    by (simp add: publishSequencer_def)
  from kahn_error [OF kahnInv_initial this]
  show "\<exists>members. e = CyclicDependency members \<and> members \<noteq> [] \<and> set members \<subseteq> set affected
         \<and> (\<forall>m\<in>set members. set (prodDependenciesOf graph m) \<inter> set members \<noteq> {})"
    unfolding depsIn_def .
next
  assume a: "S \<subseteq> set affected \<and> S \<noteq> {} \<and> (\<forall>s\<in>S. set (prodDependenciesOf graph s) \<inter> S \<noteq> {})"
  then have "S \<subseteq> set affected" "S \<noteq> {}" "\<forall>s\<in>S. depsIn graph S s \<noteq> {}"
    unfolding depsIn_def by simp_all
  from kahn_cycle [OF kahnInv_initial this]
  show "\<exists>members. publishSequencer graph affected = Inl (CyclicDependency members) \<and> S \<subseteq> set members"
    unfolding publishSequencer_def .
qed

lemma changeTypeValue_inj: "changeTypeValue a = changeTypeValue b \<Longrightarrow> a = b"
  by (cases a; cases b) simp_all

lemma changeTypeValue_max: "changeTypeValue (maxChangeType a b) = max (changeTypeValue a) (changeTypeValue b)"
  by (simp add: maxChangeType_def max_def)

lemma requestedTypes_Cons:
  "requestedTypes (r # rs) package =
     (if request_packageName r = package then insert (request_changeType r) (requestedTypes rs package)
      else requestedTypes rs package)"
  by (auto simp: requestedTypes_def)

lemma mergeRequests_None: "mergeRequests requests package = None \<longleftrightarrow> requestedTypes requests package = {}"
  by (induction requests) (auto simp: requestedTypes_Cons Let_def requestedTypes_def)

lemma mergeRequests_Some:
  "mergeRequests requests package = Some t \<Longrightarrow>
     t \<in> requestedTypes requests package
     \<and> changeTypeValue t = Max (changeTypeValue ` requestedTypes requests package)"
proof (induction requests arbitrary: t)
  case Nil
  then show ?case by simp
next
  case (Cons r rs)
  have fin: "finite (changeTypeValue ` requestedTypes rs package)"
    by (simp add: requestedTypes_def)
  show ?case
  proof (cases "request_packageName r = package")
    case False
    with Cons show ?thesis
      by (simp add: requestedTypes_Cons Let_def)
  next
    case True
    show ?thesis
    proof (cases "mergeRequests rs package")
      case None
      then have "requestedTypes rs package = {}"
        by (simp add: mergeRequests_None)
      with True None Cons.prems show ?thesis
        by (auto simp: requestedTypes_Cons Let_def)
    next
      case (Some s)
      from Cons.IH [OF Some] have s: "s \<in> requestedTypes rs package"
        "changeTypeValue s = Max (changeTypeValue ` requestedTypes rs package)"
        by simp_all
      then have ne: "changeTypeValue ` requestedTypes rs package \<noteq> {}"
        by auto
      from True Some Cons.prems have t: "t = maxChangeType (request_changeType r) s"
        by (simp add: Let_def)
      have "t \<in> insert (request_changeType r) (requestedTypes rs package)"
        using s(1) unfolding t by (simp add: maxChangeType_def)
      moreover have "changeTypeValue t
          = Max (insert (changeTypeValue (request_changeType r)) (changeTypeValue ` requestedTypes rs package))"
        unfolding t changeTypeValue_max using fin ne s(2) by simp
      ultimately show ?thesis
        using True by (simp add: requestedTypes_Cons)
    qed
  qed
qed

lemma mergeRequests_set:
  assumes "set requests = set requests'"
  shows "mergeRequests requests = mergeRequests requests'"
proof
  fix package
  have rt: "requestedTypes requests package = requestedTypes requests' package"
    using assms by (simp add: requestedTypes_def)
  show "mergeRequests requests package = mergeRequests requests' package"
  proof (cases "mergeRequests requests package")
    case None
    then have "mergeRequests requests' package = None"
      using rt by (simp add: mergeRequests_None)
    with None show ?thesis by simp
  next
    case (Some t)
    then have "requestedTypes requests' package \<noteq> {}"
      using rt mergeRequests_None [of requests package] by auto
    then obtain t' where t': "mergeRequests requests' package = Some t'"
      using mergeRequests_None [of requests' package] by (cases "mergeRequests requests' package") auto
    from mergeRequests_Some [OF Some] mergeRequests_Some [OF t'] rt
    have "changeTypeValue t = changeTypeValue t'"
      by simp
    then show ?thesis
      using Some t' by (simp add: changeTypeValue_inj)
  qed
qed

lemma find_None_set: "set xs = set ys \<Longrightarrow> find P xs = None \<Longrightarrow> find P ys = None"
  by (simp add: find_None_iff)

lemma bumpAggregator_set:
  assumes "set requests = set requests'" and "bumpAggregator requests graph = Inr plan"
  shows "bumpAggregator requests' graph = Inr plan"
proof -
  from assms(2) have none: "find (\<lambda>r. request_packageName r \<notin> set (map name graph)) requests = None"
    by (auto simp: bumpAggregator_def split: option.splits)
  from find_None_set [OF assms(1) this] none assms(2) mergeRequests_set [OF assms(1)]
  show ?thesis
    by (simp add: bumpAggregator_def)
qed

text \<open>
  Claim C6. For a package that some request names, the merged severity is one of the
  requested change types and its rank is the maximum of their ranks under
  \<open>none < dependency < patch < minor < major\<close>. Merging the same requests in another order
  gives the same severities, and the same plan.
\<close>

theorem merged_severity_is_maximum:
  "(package \<in> request_packageName ` set requests \<longrightarrow>
      (\<exists>t. mergeRequests requests package = Some t
           \<and> t \<in> requestedTypes requests package
           \<and> changeTypeValue t = Max (changeTypeValue ` requestedTypes requests package)))
   \<and> (mset requests' = mset requests \<longrightarrow>
        mergeRequests requests' = mergeRequests requests
        \<and> (bumpAggregator requests graph = Inr plan \<longrightarrow> bumpAggregator requests' graph = Inr plan))"
proof (intro conjI impI)
  assume "package \<in> request_packageName ` set requests"
  then have "requestedTypes requests package \<noteq> {}"
    by (auto simp: requestedTypes_def)
  then obtain t where t: "mergeRequests requests package = Some t"
    using mergeRequests_None [of requests package] by (cases "mergeRequests requests package") auto
  with mergeRequests_Some [OF t]
  show "\<exists>t. mergeRequests requests package = Some t
           \<and> t \<in> requestedTypes requests package
           \<and> changeTypeValue t = Max (changeTypeValue ` requestedTypes requests package)"
    by blast
next
  assume "mset requests' = mset requests"
  then have "set requests' = set requests"
    by (rule mset_eq_setD)
  then show "mergeRequests requests' = mergeRequests requests"
    by (rule mergeRequests_set)
next
  assume "mset requests' = mset requests" and ok: "bumpAggregator requests graph = Inr plan"
  then have "set requests = set requests'"
    by (metis mset_eq_setD)
  from bumpAggregator_set [OF this ok] show "bumpAggregator requests' graph = Inr plan" .
qed















lemma example_order: "publishSequencer example_graph [''A'', ''B''] = Inr [''B'', ''A'']"
  by code_simp

lemma example_order4: "publishSequencer example_graph [''E'', ''A'', ''C'', ''B''] = Inr [''B'', ''A'', ''C'', ''E'']"
  by code_simp

lemma example_cycle: "publishSequencer example_graph [''F'', ''G''] = Inl (CyclicDependency [''F'', ''G''])"
  by code_simp


lemma example_merge: "mergeRequests [request ''C'' patch, request ''C'' major] ''C'' = Some major"
  by code_simp

lemma example_engine:
  "runEngine [request ''B'' patch] example_graph =
     Inr ([''B'', ''A''],
       [\<lparr>plan_packageName = ''A'', finalChangeType = dependency, plan_newVersion = (1, 0, 1), explicit = False\<rparr>,
        \<lparr>plan_packageName = ''B'', finalChangeType = patch, plan_newVersion = (1, 0, 1), explicit = True\<rparr>])"
  by code_simp

theorem publish_order_respects_production_edges_witness:
  "publishSequencer example_graph [''A'', ''B''] = Inr [''B'', ''A'']
   \<and> runEngine [request ''B'' patch] example_graph =
     Inr ([''B'', ''A''],
       [\<lparr>plan_packageName = ''A'', finalChangeType = dependency, plan_newVersion = (1, 0, 1), explicit = False\<rparr>,
        \<lparr>plan_packageName = ''B'', finalChangeType = patch, plan_newVersion = (1, 0, 1), explicit = True\<rparr>])
   \<and> [''B'', ''A''] ! 0 \<in> set (prodDependenciesOf example_graph ([''B'', ''A''] ! 1))
   \<and> set [''B'', ''A''] = set [''A'', ''B''] \<and> distinct [''B'', ''A'']"
  using publish_order_respects_production_edges [of example_graph "[''A'', ''B'']" "[''B'', ''A'']"
      "[request ''B'' patch]"
      "[\<lparr>plan_packageName = ''A'', finalChangeType = dependency, plan_newVersion = (1, 0, 1), explicit = False\<rparr>,
        \<lparr>plan_packageName = ''B'', finalChangeType = patch, plan_newVersion = (1, 0, 1), explicit = True\<rparr>]"]
    example_order example_engine
  by (simp add: prodDependenciesOf_def example_graph_def)

theorem publish_order_smallest_name_first_witness:
  "publishSequencer example_graph [''E'', ''A'', ''C'', ''B''] = Inr [''B'', ''A'', ''C'', ''E'']
   \<and> set [''B'', ''C'', ''A'', ''E''] = set [''E'', ''A'', ''C'', ''B'']
   \<and> publishSequencer example_graph [''B'', ''C'', ''A'', ''E''] = Inr [''B'', ''A'', ''C'', ''E'']"
proof -
  have same: "set [''B'', ''C'', ''A'', ''E''] = set [''E'', ''A'', ''C'', ''B'']"
    by auto
  from publish_order_smallest_name_first [of example_graph "[''E'', ''A'', ''C'', ''B'']"
      "[''B'', ''A'', ''C'', ''E'']"] example_order4
  have "\<forall>affected'. set affected' = set [''E'', ''A'', ''C'', ''B''] \<longrightarrow>
      publishSequencer example_graph affected' = Inr [''B'', ''A'', ''C'', ''E'']"
    by (elim impE conjE) simp_all
  with same have "publishSequencer example_graph [''B'', ''C'', ''A'', ''E''] = Inr [''B'', ''A'', ''C'', ''E'']"
    by (elim allE impE) simp_all
  with same example_order4 show ?thesis
    by (intro conjI)
qed

theorem cycle_fails_with_all_unresolved_witness:
  "publishSequencer example_graph [''F'', ''G''] = Inl (CyclicDependency [''F'', ''G''])
   \<and> {''F'', ''G''} \<subseteq> set [''F'', ''G'', ''B'']
   \<and> (\<exists>members. publishSequencer example_graph [''F'', ''G'', ''B''] = Inl (CyclicDependency members)
         \<and> {''F'', ''G''} \<subseteq> set members)"
  using cycle_fails_with_all_unresolved [of example_graph "[''F'', ''G'', ''B'']" _ "{''F'', ''G''}"]
    cycle_fails_with_all_unresolved [of example_graph "[''F'', ''G'']" "CyclicDependency [''F'', ''G'']" "{}"]
    example_cycle
  by (simp add: prodDependenciesOf_def example_graph_def)



theorem merged_severity_is_maximum_witness:
  "''C'' \<in> request_packageName ` set [request ''C'' patch, request ''C'' major]
   \<and> mergeRequests [request ''C'' patch, request ''C'' major] ''C'' = Some major
   \<and> mset [request ''C'' major, request ''C'' patch] = mset [request ''C'' patch, request ''C'' major]
   \<and> mergeRequests [request ''C'' major, request ''C'' patch] = mergeRequests [request ''C'' patch, request ''C'' major]"
  using merged_severity_is_maximum [of "''C''" "[request ''C'' patch, request ''C'' major]"
      "[request ''C'' major, request ''C'' patch]" example_graph "[]"]
    example_merge
  by (simp add: request_def add_mset_commute)

end
